theory Spec2Isabelle
  imports Complex_Main "HOL-Library.Log_Nat"
begin

section \<open>Radon transform and filtered backprojection (hw5/radon.py)\<close>

text \<open>
  The operators of \<^verbatim>\<open>radon.py\<close> are embedded over exact arithmetic: a tensor element is a
  real (or complex) number instead of a float32/float64, so the values below are those of
  the rounding-free reading of the code. The one place where the code turns rounded values
  into a decision, the comparison that builds the circle mask, is not taken from exact
  arithmetic: where rounding can decide it, its outcome is an argument of the constructor
  (see \<open>f32_le_one\<close>). Tensors carry their shape and are indexed by a
  multi-index (a list of naturals, one per dimension); the value at an index outside the
  shape is irrelevant. All tensors are taken to be floating-point tensors on the device of
  the operator, so the element type and device checks of the library never fail; the
  \<open>device\<close> arguments are left out. Every other exception the Python raises is a value of
  type \<open>error\<close>. The sizes \<open>n_angles\<close> and \<open>image_size\<close> are natural numbers.
\<close>

subsection \<open>Errors and tensors\<close>

datatype error =
    ZeroDivisionError
  | ValueError
  | IndexError
  | RuntimeError

definition ebind :: "error + 'a \<Rightarrow> ('a \<Rightarrow> error + 'b) \<Rightarrow> error + 'b" where
  "ebind m f = (case m of Inl e \<Rightarrow> Inl e | Inr x \<Rightarrow> f x)"

record 'a tensor =
  shape :: "nat list"
  dat :: "nat list \<Rightarrow> 'a"

definition numel :: "nat list \<Rightarrow> nat" where
  "numel shp = prod_list shp"

text \<open>Row-major (contiguous) position of a multi-index, and its inverse.\<close>

fun flat_index :: "nat list \<Rightarrow> nat list \<Rightarrow> nat" where
  "flat_index (d # ds) (i # is) = i * prod_list ds + flat_index ds is"
| "flat_index _ _ = 0"

fun unflat_index :: "nat list \<Rightarrow> nat \<Rightarrow> nat list" where
  "unflat_index [] p = []"
| "unflat_index (d # ds) p = (p div prod_list ds) # unflat_index ds (p mod prod_list ds)"

text \<open>
  \<^verbatim>\<open>t.reshape(shp)\<close> and \<^verbatim>\<open>t.view(shp)\<close> on a contiguous tensor: the same elements in
  row-major order under a new shape; the element counts must agree.
\<close>

definition reshape :: "'a tensor \<Rightarrow> nat list \<Rightarrow> error + 'a tensor" where
  "reshape t shp =
     (if numel shp = numel (shape t)
      then Inr \<lparr>shape = shp, dat = (\<lambda>idx. dat t (unflat_index (shape t) (flat_index shp idx)))\<rparr>
      else Inl RuntimeError)"

text \<open>\<^verbatim>\<open>t[None]\<close>: a new leading dimension of size 1.\<close>

definition unsqueeze0 :: "'a tensor \<Rightarrow> 'a tensor" where
  "unsqueeze0 t = \<lparr>shape = 1 # shape t, dat = (\<lambda>idx. dat t (tl idx))\<rparr>"

text \<open>\<^verbatim>\<open>t[:, None]\<close> on a one-dimensional tensor: a new trailing dimension of size 1.\<close>

definition unsqueeze_last :: "'a tensor \<Rightarrow> 'a tensor" where
  "unsqueeze_last t = \<lparr>shape = shape t @ [1], dat = (\<lambda>idx. dat t (butlast idx))\<rparr>"

text \<open>\<^verbatim>\<open>torch.cat((a, b), dim=-1)\<close>: all dimensions but the last must agree.\<close>

definition cat_last :: "'a tensor \<Rightarrow> 'a tensor \<Rightarrow> error + 'a tensor" where
  "cat_last a b =
     (if shape a \<noteq> [] \<and> shape b \<noteq> [] \<and> butlast (shape a) = butlast (shape b)
      then Inr \<lparr>shape = butlast (shape a) @ [last (shape a) + last (shape b)],
                dat = (\<lambda>idx. if last idx < last (shape a) then dat a idx
                              else dat b (butlast idx @ [last idx - last (shape a)]))\<rparr>
      else Inl RuntimeError)"

text \<open>
  \<^verbatim>\<open>t.repeat(*reps)\<close>: the tensor is tiled \<open>reps ! m\<close> times along dimension \<open>m\<close>; when
  there are more repeats than dimensions, dimensions of size 1 are prepended first.
\<close>

definition repeat :: "'a tensor \<Rightarrow> nat list \<Rightarrow> error + 'a tensor" where
  "repeat t reps =
     (if length reps < length (shape t) then Inl RuntimeError
      else let shp = replicate (length reps - length (shape t)) 1 @ shape t
           in Inr \<lparr>shape = map2 (*) reps shp,
                   dat = (\<lambda>idx. dat t (drop (length reps - length (shape t))
                                          (map2 (\<lambda>i d. i mod d) idx shp)))\<rparr>)"

text \<open>\<^verbatim>\<open>t.sum(d)\<close>: dimension \<open>d\<close> is summed out.\<close>

definition sum_dim :: "real tensor \<Rightarrow> nat \<Rightarrow> error + real tensor" where
  "sum_dim t d =
     (if d < length (shape t)
      then Inr \<lparr>shape = take d (shape t) @ drop (Suc d) (shape t),
                dat = (\<lambda>idx. \<Sum>i < shape t ! d. dat t (take d idx @ [i] @ drop d idx))\<rparr>
      else Inl IndexError)"

text \<open>\<^verbatim>\<open>t.permute(*perm)\<close>: output dimension \<open>m\<close> is input dimension \<open>perm ! m\<close>.\<close>

fun index_of :: "nat list \<Rightarrow> nat \<Rightarrow> nat" where
  "index_of [] q = 0"
| "index_of (p # ps) q = (if p = q then 0 else Suc (index_of ps q))"

definition permute :: "'a tensor \<Rightarrow> nat list \<Rightarrow> error + 'a tensor" where
  "permute t perm =
     (if length perm = length (shape t) \<and> distinct perm \<and> list_all (\<lambda>p. p < length perm) perm
      then Inr \<lparr>shape = map (\<lambda>p. shape t ! p) perm,
                dat = (\<lambda>idx. dat t (map (\<lambda>q. idx ! index_of perm q) [0..<length perm]))\<rparr>
      else Inl RuntimeError)"

text \<open>Elementwise change of the element type (\<^verbatim>\<open>.double()\<close> on a mask, real to complex).\<close>

definition tmap :: "('a \<Rightarrow> 'b) \<Rightarrow> 'a tensor \<Rightarrow> 'b tensor" where
  "tmap f t = \<lparr>shape = shape t, dat = (\<lambda>idx. f (dat t idx))\<rparr>"

text \<open>
  Broadcasting of two shapes, aligned at the last dimension: two sizes are compatible when
  they are equal or one of them is 1.
\<close>

fun bc_rev :: "nat list \<Rightarrow> nat list \<Rightarrow> nat list option" where
  "bc_rev [] bs = Some bs"
| "bc_rev (a # as) [] = Some (a # as)"
| "bc_rev (a # as) (b # bs) =
     (if a = b \<or> b = 1 then map_option ((#) a) (bc_rev as bs)
      else if a = 1 then map_option ((#) b) (bc_rev as bs)
      else None)"

definition broadcast_shapes :: "nat list \<Rightarrow> nat list \<Rightarrow> nat list option" where
  "broadcast_shapes s1 s2 = map_option rev (bc_rev (rev s1) (rev s2))"

definition bc_index :: "nat list \<Rightarrow> nat list \<Rightarrow> nat list" where
  "bc_index shp idx =
     map2 (\<lambda>d i. if d = 1 then 0 else i) shp (drop (length idx - length shp) idx)"

definition tbinop :: "('a \<Rightarrow> 'b \<Rightarrow> 'c) \<Rightarrow> 'a tensor \<Rightarrow> 'b tensor \<Rightarrow> error + 'c tensor" where
  "tbinop f a b =
     (case broadcast_shapes (shape a) (shape b) of
        None \<Rightarrow> Inl RuntimeError
      | Some shp \<Rightarrow>
          Inr \<lparr>shape = shp,
               dat = (\<lambda>idx. f (dat a (bc_index (shape a) idx)) (dat b (bc_index (shape b) idx)))\<rparr>)"



subsection \<open>Library numerics: linspace, arange, the discrete Fourier transform\<close>

text \<open>
  \<^verbatim>\<open>torch.linspace(start, stop, steps)\<close>: \<open>steps\<close> evenly spaced values from \<open>start\<close>
  to \<open>stop\<close> inclusive; a single step gives \<open>start\<close>.
\<close>

definition linspace :: "real \<Rightarrow> real \<Rightarrow> nat \<Rightarrow> real list" where
  "linspace start stop steps =
     (if steps = 1 then [start]
      else map (\<lambda>i. start + real i * ((stop - start) / real (steps - 1))) [0..<steps])"

text \<open>
  \<^verbatim>\<open>np.arange(start, stop, step, dtype=int)\<close> with float bounds and an integer step: the
  length is \<open>ceil((stop - start) / step)\<close> (or 0); the first two elements are \<open>start\<close> and
  \<open>start + step\<close> converted to integers (truncation), and the others continue with their
  difference.
\<close>

definition trunc :: "real \<Rightarrow> int" where
  "trunc x = (if 0 \<le> x then \<lfloor>x\<rfloor> else \<lceil>x\<rceil>)"

definition arange_int :: "real \<Rightarrow> real \<Rightarrow> int \<Rightarrow> int list" where
  "arange_int start stop step =
     map (\<lambda>i. trunc start + int i * (trunc (start + real_of_int step) - trunc start))
         [0..<nat \<lceil>(stop - start) / real_of_int step\<rceil>]"

definition dft :: "complex list \<Rightarrow> complex list" where
  "dft xs = map (\<lambda>k. \<Sum>j < length xs.
                xs ! j * cis (- (2 * pi * real j * real k / real (length xs)))) [0..<length xs]"

definition idft :: "complex list \<Rightarrow> complex list" where
  "idft xs = map (\<lambda>k. (\<Sum>j < length xs.
                xs ! j * cis (2 * pi * real j * real k / real (length xs)))
                / of_nat (length xs)) [0..<length xs]"

text \<open>\<^verbatim>\<open>torch.fft.fft(t, dim=2)\<close> and \<^verbatim>\<open>torch.fft.ifft(t, dim=2)\<close>.\<close>

definition fiber2 :: "'a tensor \<Rightarrow> nat list \<Rightarrow> 'a list" where
  "fiber2 t idx = map (\<lambda>j. dat t (idx[2 := j])) [0..<shape t ! 2]"

definition fft_dim2 :: "complex tensor \<Rightarrow> error + complex tensor" where
  "fft_dim2 t =
     (if length (shape t) \<le> 2 then Inl IndexError
      else if shape t ! 2 = 0 then Inl RuntimeError
      else Inr \<lparr>shape = shape t, dat = (\<lambda>idx. dft (fiber2 t idx) ! (idx ! 2))\<rparr>)"

definition ifft_dim2 :: "complex tensor \<Rightarrow> error + complex tensor" where
  "ifft_dim2 t =
     (if length (shape t) \<le> 2 then Inl IndexError
      else if shape t ! 2 = 0 then Inl RuntimeError
      else Inr \<lparr>shape = shape t, dat = (\<lambda>idx. idft (fiber2 t idx) ! (idx ! 2))\<rparr>)"

text \<open>
  \<^verbatim>\<open>torch.nn.functional.pad(t, [0, 0, 0, p], value=0)\<close>: the last dimension is left alone and
  the one before it gets \<open>p\<close> zeros at its end.
\<close>

definition pad_rows :: "real tensor \<Rightarrow> nat \<Rightarrow> error + real tensor" where
  "pad_rows t p =
     (let r = length (shape t) in
      if r < 2 then Inl RuntimeError
      else Inr \<lparr>shape = (shape t)[r - 2 := shape t ! (r - 2) + p],
                dat = (\<lambda>idx. if idx ! (r - 2) < shape t ! (r - 2) then dat t idx else 0)\<rparr>)"

text \<open>\<^verbatim>\<open>t[:, :, :m, :]\<close>: the first \<open>m\<close> entries of dimension 2 (all of them when there are fewer).\<close>

definition slice_dim2 :: "'a tensor \<Rightarrow> nat \<Rightarrow> error + 'a tensor" where
  "slice_dim2 t m =
     (if length (shape t) < 4 then Inl IndexError
      else Inr \<lparr>shape = (shape t)[2 := min m (shape t ! 2)], dat = dat t\<rparr>)"


text \<open>\<^verbatim>\<open>torch.tensor(xs)\<close> of a one-dimensional array.\<close>

definition tensor_of_list :: "'a list \<Rightarrow> 'a tensor" where
  "tensor_of_list xs = \<lparr>shape = [length xs], dat = (\<lambda>idx. xs ! (idx ! 0))\<rparr>"

text \<open>
  \<^verbatim>\<open>torch.meshgrid(a, b)\<close> (matrix indexing): the first result repeats \<open>a\<close> along the rows,
  the second repeats \<open>b\<close> along the columns.
\<close>

definition meshgrid :: "'a list \<Rightarrow> 'a list \<Rightarrow> 'a tensor \<times> 'a tensor" where
  "meshgrid a b =
     (\<lparr>shape = [length a, length b], dat = (\<lambda>idx. a ! (idx ! 0))\<rparr>,
      \<lparr>shape = [length a, length b], dat = (\<lambda>idx. b ! (idx ! 1))\<rparr>)"

subsection \<open>Library numerics: affine grids and bilinear grid sampling\<close>

text \<open>
  \<^verbatim>\<open>affine_grid(theta, size, align_corners=True)\<close>: the base grid has the coordinates
  \<open>linspace(-1, 1, W)\<close> and \<open>linspace(-1, 1, H)\<close> (the single coordinate 0 when the axis has
  one point), and the output holds \<open>theta[n] \<cdot> (x, y, 1)\<close> at \<open>[n, h, w, :]\<close>. The matrices
  must be 2 by 3, and an empty output size is refused.
\<close>

definition base_coord :: "nat \<Rightarrow> nat \<Rightarrow> real" where
  "base_coord steps i = (if steps \<le> 1 then 0 else linspace (- 1) 1 steps ! i)"

definition affine_grid :: "real tensor \<Rightarrow> nat list \<Rightarrow> error + real tensor" where
  "affine_grid theta sz =
     (if length sz = 4 \<and> length (shape theta) = 3 \<and> shape theta ! 1 = 2 \<and> shape theta ! 2 = 3
      then if min (sz ! 2) (sz ! 3) \<noteq> 1 \<and> 0 \<in> set sz then Inl ValueError
           else if shape theta ! 0 \<noteq> sz ! 0 then Inl RuntimeError
           else Inr \<lparr>shape = [sz ! 0, sz ! 2, sz ! 3, 2],
                     dat = (\<lambda>idx. dat theta [idx ! 0, idx ! 3, 0] * base_coord (sz ! 3) (idx ! 2)
                                 + dat theta [idx ! 0, idx ! 3, 1] * base_coord (sz ! 2) (idx ! 1)
                                 + dat theta [idx ! 0, idx ! 3, 2])\<rparr>
      else Inl ValueError)"

text \<open>
  \<^verbatim>\<open>grid_sample(input, grid, mode='bilinear', padding_mode='zeros', align_corners=True)\<close>.
  A grid coordinate in \<open>[-1, 1]\<close> is mapped to a pixel position of the input, the four
  neighbouring pixels are weighted bilinearly, and a neighbour outside the input counts 0.
\<close>

definition unnormalize :: "real \<Rightarrow> nat \<Rightarrow> real" where
  "unnormalize coord sz = ((coord + 1) / 2) * (real sz - 1)"

definition within_bounds_2d :: "int \<Rightarrow> int \<Rightarrow> nat \<Rightarrow> nat \<Rightarrow> bool" where
  "within_bounds_2d h w H W = (0 \<le> h \<and> h < int H \<and> 0 \<le> w \<and> w < int W)"

definition pixel :: "(nat list \<Rightarrow> real) \<Rightarrow> nat \<Rightarrow> nat \<Rightarrow> nat \<Rightarrow> nat \<Rightarrow> int \<Rightarrow> int \<Rightarrow> real" where
  "pixel inp n c H W iy ix =
     (if within_bounds_2d iy ix H W then inp [n, c, nat iy, nat ix] else 0)"

definition bilinear :: "(nat list \<Rightarrow> real) \<Rightarrow> nat \<Rightarrow> nat \<Rightarrow> nat \<Rightarrow> nat \<Rightarrow> real \<Rightarrow> real \<Rightarrow> real" where
  "bilinear inp n c H W x y =
     (let ix = unnormalize x W; iy = unnormalize y H;
          ix_nw = \<lfloor>ix\<rfloor>; iy_nw = \<lfloor>iy\<rfloor>;
          ix_ne = ix_nw + 1; iy_ne = iy_nw;
          ix_sw = ix_nw; iy_sw = iy_nw + 1;
          ix_se = ix_nw + 1; iy_se = iy_nw + 1;
          nw = (of_int ix_se - ix) * (of_int iy_se - iy);
          ne = (ix - of_int ix_sw) * (of_int iy_sw - iy);
          sw = (of_int ix_ne - ix) * (iy - of_int iy_ne);
          se = (ix - of_int ix_nw) * (iy - of_int iy_nw)
      in pixel inp n c H W iy_nw ix_nw * nw + pixel inp n c H W iy_ne ix_ne * ne
         + pixel inp n c H W iy_sw ix_sw * sw + pixel inp n c H W iy_se ix_se * se)"

definition grid_sample :: "real tensor \<Rightarrow> real tensor \<Rightarrow> error + real tensor" where
  "grid_sample inp g =
     (if length (shape inp) = 4 \<and> length (shape g) = 4 \<and> shape g ! 0 = shape inp ! 0
         \<and> shape g ! 3 = 2 \<and> 0 < shape inp ! 2 \<and> 0 < shape inp ! 3
      then Inr \<lparr>shape = [shape inp ! 0, shape inp ! 1, shape g ! 1, shape g ! 2],
                dat = (\<lambda>idx. bilinear (dat inp) (idx ! 0) (idx ! 1) (shape inp ! 2) (shape inp ! 3)
                               (dat g [idx ! 0, idx ! 2, idx ! 3, 0])
                               (dat g [idx ! 0, idx ! 2, idx ! 3, 1]))\<rparr>
      else Inl RuntimeError)"

text \<open>
  \<^verbatim>\<open>t.reshape(pre..., -1, post...)\<close>: the size written \<open>-1\<close> is inferred from the element
  count; it must be determined and exact.
\<close>

definition reshape_infer :: "'a tensor \<Rightarrow> nat list \<Rightarrow> nat list \<Rightarrow> error + 'a tensor" where
  "reshape_infer t pre post =
     (let known = numel (pre @ post) in
      if known = 0 \<or> numel (shape t) mod known \<noteq> 0 then Inl RuntimeError
      else reshape t (pre @ [numel (shape t) div known] @ post))"

text \<open>
  \<^verbatim>\<open>t[mask == 0] = 0.\<close> with a mask of the tensor's rank: the shapes must agree, and the
  elements where the mask is 0 are overwritten.
\<close>

definition zero_where_mask_is_zero :: "real tensor \<Rightarrow> real tensor \<Rightarrow> error + real tensor" where
  "zero_where_mask_is_zero t m =
     (if shape m = shape t
      then Inr \<lparr>shape = shape t, dat = (\<lambda>idx. if dat m idx = 0 then 0 else dat t idx)\<rparr>
      else Inl IndexError)"

subsection \<open>The ramp filter\<close>

text \<open>
  \<^verbatim>\<open>rampfilter(size)\<close>, lines 12 to 18. \<open>ramp_index\<close> is the array \<open>n\<close>, \<open>ramp_response\<close>
  the array \<open>f\<close> after both assignments. \<^verbatim>\<open>f[0] = 0.25\<close> raises on an empty array, and
  \<^verbatim>\<open>f[1::2] = v\<close> needs \<open>v\<close> to have the length of the slice or length 1.
\<close>

definition ramp_index :: "nat \<Rightarrow> int list" where
  "ramp_index sz =
     arange_int 1 (real sz / 2 + 1) 2 @ arange_int (real sz / 2 - 1) 0 (- 2)"

definition set_odd_entries :: "real list \<Rightarrow> real list \<Rightarrow> error + real list" where
  "set_odd_entries f v =
     (if length v = length f div 2
      then Inr (map (\<lambda>i. if odd i then v ! (i div 2) else f ! i) [0..<length f])
      else if length v = 1
      then Inr (map (\<lambda>i. if odd i then v ! 0 else f ! i) [0..<length f])
      else Inl ValueError)"

definition ramp_response :: "nat \<Rightarrow> error + real list" where
  "ramp_response sz =
     (if sz = 0 then Inl IndexError
      else set_odd_entries ((replicate sz 0)[0 := 0.25])
             (map (\<lambda>m. - 1 / (pi * real_of_int m) ^ 2) (ramp_index sz)))"

definition rampfilter :: "nat \<Rightarrow> error + real tensor" where
  "rampfilter sz =
     ebind (ramp_response sz)
       (\<lambda>f. Inr (tensor_of_list (map (\<lambda>z. 2 * Re z) (dft (map complex_of_real f)))))"

text \<open>
  The index array and the real-space response as the specification words them: the
  ascending odd integers up to \<open>size / 2\<close> followed by the descending odd integers from
  \<open>size / 2 - 1\<close> down to 1; \<open>f[0] = 0.25\<close>, \<open>f[i] = -1 / (\<pi> n)\<^sup>2\<close> at the odd indices and 0 at
  the other ones. They are compared with \<open>ramp_index\<close> and \<open>ramp_response\<close> below.
\<close>

definition spec_ramp_index :: "nat \<Rightarrow> int list" where
  "spec_ramp_index sz =
     filter odd [1..int (sz div 2)] @ rev (filter odd [1..int (sz div 2) - 1])"

definition spec_ramp_response :: "nat \<Rightarrow> real list" where
  "spec_ramp_response sz =
     map (\<lambda>i. if i = 0 then 0.25
              else if odd i then - 1 / (pi * real_of_int (spec_ramp_index sz ! (i div 2))) ^ 2
              else 0) [0..<sz]"

subsection \<open>The Radon operator\<close>

text \<open>
  The projection angles of line 37 and line 84:
  \<^verbatim>\<open>torch.linspace(0, np.pi-(np.pi/n_angles), n_angles)\<close>.
\<close>

definition thetas :: "nat \<Rightarrow> error + real list" where
  "thetas n_angles =
     (if n_angles = 0 then Inl ZeroDivisionError
      else Inr (linspace 0 (pi - pi / real n_angles) n_angles))"

text \<open>
  Line 41: the six stacked entries \<open>cos, sin, 0, -sin, cos, 0\<close> of each angle, read as a
  2 by 3 matrix.
\<close>

definition rotations :: "real list \<Rightarrow> real tensor" where
  "rotations ths =
     \<lparr>shape = [length ths, 2, 3],
      dat = (\<lambda>idx. [cos (ths ! (idx ! 0)), sin (ths ! (idx ! 0)), 0,
                    - sin (ths ! (idx ! 0)), cos (ths ! (idx ! 0)), 0] ! (3 * (idx ! 1) + idx ! 2))\<rparr>"

record radon =
  n_angles :: nat
  rotated :: "real tensor"

definition radon_init :: "nat \<Rightarrow> nat \<Rightarrow> error + radon" where
  "radon_init n image_size =
     ebind (thetas n) (\<lambda>ths.
     ebind (affine_grid (rotations ths) [n, 1, image_size, image_size]) (\<lambda>g.
     ebind (reshape_infer g [1] [image_size, 2]) (\<lambda>rot.
     Inr \<lparr>n_angles = n, rotated = rot\<rparr>)))"

definition radon_forward :: "radon \<Rightarrow> real tensor \<Rightarrow> error + real tensor" where
  "radon_forward self img =
     (case shape img of
        [bsz, c, shape_size, w] \<Rightarrow>
          ebind (repeat (rotated self) [bsz, 1, 1, 1]) (\<lambda>g.
          ebind (grid_sample img g) (\<lambda>sampled.
          ebind (reshape sampled [bsz, 1, n_angles self, shape_size, shape_size]) (\<lambda>out_fl.
          ebind (sum_dim out_fl 3) (\<lambda>summed.
          permute summed [0, 1, 3, 2]))))
      | _ \<Rightarrow> Inl ValueError)"


subsection \<open>Filtered backprojection\<close>

record fbp =
  image_size :: nat
  step_size :: real
  fbp_n_angles :: nat
  circle :: bool
  filtered :: bool
  pad_width :: nat
  fbp_filter :: "real tensor"
  grid :: "real tensor"
  reconstruction_circle :: "bool tensor"

text \<open>
  Line 79: \<^verbatim>\<open>max(64, int(2 ** (2 * torch.tensor(det_count)).float().log2().ceil()))\<close>, with
  the rounded-up binary logarithm taken exactly.
\<close>

definition projection_size_padded :: "nat \<Rightarrow> nat" where
  "projection_size_padded det_count = max 64 (2 ^ ceillog2 (2 * det_count))"

text \<open>
  Lines 86 to 90. \<open>tgrid\<close> and \<open>y\<close> have shape \<open>[n_angles, image_size, image_size, 1]\<close>; the
  products with \<open>thetas\<close> and with the angle coordinates broadcast the angle over the
  pixel grid.
\<close>

definition tgrid :: "real list \<Rightarrow> real tensor \<Rightarrow> real tensor \<Rightarrow> real tensor" where
  "tgrid ths grid_x grid_y =
     \<lparr>shape = length ths # shape grid_x @ [1],
      dat = (\<lambda>idx. dat grid_x [idx ! 1, idx ! 2] * cos (ths ! (idx ! 0))
                  - dat grid_y [idx ! 1, idx ! 2] * sin (ths ! (idx ! 0)))\<rparr>"

definition angle_coords :: "real tensor \<Rightarrow> nat \<Rightarrow> real tensor" where
  "angle_coords tg n =
     \<lparr>shape = shape tg, dat = (\<lambda>idx. 1 * linspace (- 1) 1 n ! (idx ! 0))\<rparr>"

text \<open>
  Line 91, \<^verbatim>\<open>(grid_x ** 2 + grid_y ** 2) <= 1\<close>, is a comparison of float32 values: the grid,
  its squares and their sum are rounded before they are compared. Each rounding moves a
  value by a relative error of at most \<open>2\<^sup>-\<^sup>2\<^sup>3\<close>, the sum by far less than \<open>10\<^sup>-\<^sup>3\<close>, so the
  comparison comes out as in exact arithmetic wherever the exact sum \<open>s\<close> is farther than
  \<open>10\<^sup>-\<^sup>3\<close> from 1. Nearer to 1 the outcome is decided by the rounding, which this embedding
  does not reproduce: there it is \<open>b\<close>, a parameter. The constructor takes these outcomes as
  its argument \<open>f32\<close>, one for every pixel (row, column); they are read only at the pixels
  where rounding decides.
\<close>

definition f32_le_one :: "bool \<Rightarrow> real \<Rightarrow> bool" where
  "f32_le_one b s =
     (if s \<le> 1 - 1 / 1000 then True else if 1 + 1 / 1000 < s then False else b)"

definition circle_mask :: "(nat \<Rightarrow> nat \<Rightarrow> bool) \<Rightarrow> real tensor \<Rightarrow> real tensor \<Rightarrow> bool tensor" where
  "circle_mask f32 grid_x grid_y =
     \<lparr>shape = shape grid_x,
      dat = (\<lambda>idx. f32_le_one (f32 (idx ! 0) (idx ! 1))
                     ((dat grid_x idx) ^ 2 + (dat grid_y idx) ^ 2))\<rparr>"

definition fbp_init ::
  "nat \<Rightarrow> nat \<Rightarrow> bool \<Rightarrow> bool \<Rightarrow> (nat \<Rightarrow> nat \<Rightarrow> bool) \<Rightarrow> error + fbp" where
  "fbp_init n sz circ filt f32 =
     (if sz = 0 then Inl ZeroDivisionError
      else
        let det_count = sz;
            padded = projection_size_padded det_count
        in ebind (rampfilter padded) (\<lambda>flt.
           ebind (thetas n) (\<lambda>ths.
             let (grid_y, grid_x) = meshgrid (linspace (- 1) 1 sz) (linspace (- 1) 1 sz);
                 tg = tgrid ths grid_x grid_y;
                 y = angle_coords tg n
             in ebind (cat_last y tg) (\<lambda>yt.
                ebind (reshape yt [n * sz, sz, 2]) (\<lambda>v.
                Inr \<lparr>image_size = sz,
                     step_size = real sz / real det_count,
                     fbp_n_angles = n,
                     circle = circ,
                     filtered = filt,
                     pad_width = padded - det_count,
                     fbp_filter = flt,
                     grid = unsqueeze0 v,
                     reconstruction_circle = circle_mask f32 grid_x grid_y\<rparr>)))))"

text \<open>Lines 105 to 112: the ramp filter applied along the detector axis, or nothing.\<close>

definition filter_sinogram :: "fbp \<Rightarrow> real tensor \<Rightarrow> nat \<Rightarrow> error + real tensor" where
  "filter_sinogram self inp det_count =
     (if filtered self
      then ebind (pad_rows inp (pad_width self)) (\<lambda>padded_input.
           ebind (fft_dim2 (tmap complex_of_real padded_input)) (\<lambda>spectrum.
           ebind (tbinop (*) spectrum
                    (tmap complex_of_real (unsqueeze_last (fbp_filter self)))) (\<lambda>projection.
           ebind (ifft_dim2 projection) (\<lambda>back.
           slice_dim2 (tmap Re back) det_count))))
      else Inr inp)"

text \<open>
  Lines 114 to 116: the sinogram is sampled at the precomputed grid and the samples of all
  angles are added up for every pixel.
\<close>

definition accumulate :: "fbp \<Rightarrow> real tensor \<Rightarrow> nat \<Rightarrow> error + real tensor" where
  "accumulate self radon_filtered bsz =
     ebind (repeat (grid self) [bsz, 1, 1, 1]) (\<lambda>g.
     ebind (grid_sample radon_filtered g) (\<lambda>reconstructed.
     ebind (reshape reconstructed
              [bsz, fbp_n_angles self, 1, image_size self, image_size self]) (\<lambda>v.
     sum_dim v 1)))"

text \<open>Lines 119 to 121.\<close>

definition apply_circle :: "fbp \<Rightarrow> real tensor \<Rightarrow> nat \<Rightarrow> error + real tensor" where
  "apply_circle self reconstructed bsz =
     (if circle self
      then ebind (repeat (tmap (\<lambda>b. if b then 1 else 0) (reconstruction_circle self))
                    [bsz, 1, 1, 1]) (\<lambda>reconstructed_circle.
           zero_where_mask_is_zero reconstructed reconstructed_circle)
      else Inr reconstructed)"

definition fbp_forward :: "fbp \<Rightarrow> real tensor \<Rightarrow> error + real tensor" where
  "fbp_forward self inp =
     (case shape inp of
        [bsz, c, det_count, a] \<Rightarrow>
          ebind (filter_sinogram self inp det_count) (\<lambda>radon_filtered.
          ebind (accumulate self radon_filtered bsz) (\<lambda>acc.
          ebind (apply_circle self (tmap (\<lambda>v. v / step_size self) acc) bsz) (\<lambda>reconstructed.
          Inr (tmap (\<lambda>v. v * pi / (2 * real (fbp_n_angles self))) reconstructed))))
      | _ \<Rightarrow> Inl ValueError)"

subsection \<open>The operator pair and the adjointness test\<close>

definition get_operators ::
  "nat \<Rightarrow> nat \<Rightarrow> bool \<Rightarrow> (nat \<Rightarrow> nat \<Rightarrow> bool) \<Rightarrow> error + radon \<times> fbp" where
  "get_operators n sz circ f32 =
     ebind (radon_init n sz) (\<lambda>radon_op.
     ebind (fbp_init n sz circ True f32) (\<lambda>fbp_op.
     Inr (radon_op, fbp_op)))"




section \<open>Properties\<close>

subsection \<open>Tensor operations\<close>

lemma ebind_Inr [simp]: "ebind (Inr x) f = f x"
  by (simp add: ebind_def)

lemma ebind_Inl [simp]: "ebind (Inl e) f = Inl e"
  by (simp add: ebind_def)

lemma upt4: "[0..<4] = [0, 1, 2, 3]"
  by (simp add: upt_rec)

lemma flat_index_less:
  "list_all2 (<) idx shp \<Longrightarrow> shp \<noteq> [] \<Longrightarrow> flat_index shp idx < prod_list shp"
proof (induction shp idx rule: flat_index.induct)
  case (1 d ds i "is")
  from "1.prems" have i: "i < d" and rest: "list_all2 (<) is ds" by simp_all
  show ?case
  proof (cases "ds = []")
    case True
    with rest i show ?thesis by simp
  next
    case False
    with "1.IH" rest have "flat_index ds is < prod_list ds" by simp
    moreover have "Suc i * prod_list ds \<le> d * prod_list ds" using i by (intro mult_le_mono1) simp
    ultimately show ?thesis by simp
  qed
qed simp_all

lemma unflat_flat:
  "list_all2 (<) idx shp \<Longrightarrow> unflat_index shp (flat_index shp idx) = idx"
proof (induction shp idx rule: flat_index.induct)
  case (1 d ds i "is")
  from "1.prems" have i: "i < d" and rest: "list_all2 (<) is ds" by simp_all
  show ?case
  proof (cases "ds = []")
    case True
    with rest show ?thesis by simp
  next
    case False
    with rest have lt: "flat_index ds is < prod_list ds" by (simp add: flat_index_less)
    with "1.IH" rest show ?thesis by simp
  qed
qed (auto simp: list_all2_Cons2)

lemma permute_0132:
  assumes "shape t = [a, b, c, d]"
  shows "\<exists>u. permute t [0, 1, 3, 2] = Inr u \<and> shape u = [a, b, d, c] \<and>
           (\<forall>i j k l. dat u [i, j, k, l] = dat t [i, j, l, k])"
  using assms by (simp add: permute_def upt4)

lemma sum_dim_3_of_5:
  assumes "shape t = [a, b, c, d, e]"
  shows "\<exists>u. sum_dim t 3 = Inr u \<and> shape u = [a, b, c, e] \<and>
           (\<forall>i j k l. dat u [i, j, k, l] = (\<Sum>m < d. dat t [i, j, k, m, l]))"
  using assms by (simp add: sum_dim_def)

lemma sum_dim_1_of_5:
  assumes "shape t = [a, b, c, d, e]"
  shows "\<exists>u. sum_dim t 1 = Inr u \<and> shape u = [a, c, d, e] \<and>
           (\<forall>i j k l. dat u [i, j, k, l] = (\<Sum>m < b. dat t [i, m, j, k, l]))"
  using assms by (simp add: sum_dim_def)

lemma repeat_batch:
  assumes "shape t = [1, r, w, 2]"
  shows "\<exists>u. repeat t [bsz, 1, 1, 1] = Inr u \<and> shape u = [bsz, r, w, 2] \<and>
           (\<forall>i j k l. j < r \<longrightarrow> k < w \<longrightarrow> l < 2 \<longrightarrow> dat u [i, j, k, l] = dat t [0, j, k, l])"
  using assms by (simp add: repeat_def)

lemma grid_sample_ok:
  assumes "shape inp = [N, C, H, W]" "shape g = [N, Ho, Wo, 2]" "0 < H" "0 < W"
  shows "\<exists>u. grid_sample inp g = Inr u \<and> shape u = [N, C, Ho, Wo] \<and>
           (\<forall>n c h w. dat u [n, c, h, w] =
              bilinear (dat inp) n c H W (dat g [n, h, w, 0]) (dat g [n, h, w, 1]))"
  using assms by (simp add: grid_sample_def)


lemma unflat_flat_other:
  assumes "flat_index shp idx = flat_index shp' idx'" "list_all2 (<) idx' shp'"
  shows "unflat_index shp' (flat_index shp idx) = idx'"
  using assms by (simp add: unflat_flat)

lemma reshape_ok:
  assumes "numel shp = numel (shape t)"
  shows "\<exists>u. reshape t shp = Inr u \<and> shape u = shp \<and>
           (\<forall>idx. dat u idx = dat t (unflat_index (shape t) (flat_index shp idx)))"
  using assms by (simp add: reshape_def)

lemma row_index_less: "k < n \<Longrightarrow> i < H \<Longrightarrow> k * H + i < n * (H::nat)"
proof -
  assume a: "k < n" "i < H"
  have "k * H + i < Suc k * H" using a by simp
  also have "\<dots> \<le> n * H" using a by (intro mult_le_mono1) simp
  finally show ?thesis .
qed

lemma reshape_merge_rows:
  assumes "shape t = [b, 1, n * H, W]"
  shows "\<exists>u. reshape t [b, 1, n, H, W] = Inr u \<and> shape u = [b, 1, n, H, W] \<and>
           (\<forall>bi k i j. bi < b \<longrightarrow> k < n \<longrightarrow> i < H \<longrightarrow> j < W \<longrightarrow>
              dat u [bi, 0, k, i, j] = dat t [bi, 0, k * H + i, j])"
proof -
  have idx: "unflat_index (shape t) (flat_index [b, 1, n, H, W] [bi, 0, k, i, j])
          = [bi, 0, k * H + i, j]"
    if "bi < b" "k < n" "i < H" "j < W" for bi k i j
    unfolding assms
  proof (rule unflat_flat_other)
    show "flat_index [b, 1, n, H, W] [bi, 0, k, i, j]
            = flat_index [b, 1, n * H, W] [bi, 0, k * H + i, j]"
      by (simp add: algebra_simps)
    show "list_all2 (<) [bi, 0, k * H + i, j] [b, 1, n * H, W]"
      using that by (simp add: row_index_less)
  qed
  have "numel [b, 1, n, H, W] = numel (shape t)"
    by (simp add: assms numel_def)
  from reshape_ok [OF this] obtain u where
    u: "reshape t [b, 1, n, H, W] = Inr u" "shape u = [b, 1, n, H, W]"
       "\<And>idx. dat u idx = dat t (unflat_index (shape t) (flat_index [b, 1, n, H, W] idx))"
    by blast
  have "dat u [bi, 0, k, i, j] = dat t [bi, 0, k * H + i, j]"
    if "bi < b" "k < n" "i < H" "j < W" for bi k i j
    by (simp only: u(3) idx [OF that])
  with u(1,2) show ?thesis by blast
qed

lemma length_linspace [simp]: "length (linspace a b n) = n"
  by (simp add: linspace_def)

lemma nth_linspace:
  "i < n \<Longrightarrow> linspace a b n ! i = (if n = 1 then a else a + real i * ((b - a) / real (n - 1)))"
  by (auto simp: linspace_def)

lemma thetas_nth:
  assumes "0 < n" "k < n"
  shows "linspace 0 (pi - pi / real n) n ! k = real k * pi / real n"
proof (cases "n = 1")
  case True
  with assms show ?thesis by (simp add: nth_linspace)
next
  case False
  with assms have n: "1 < n" by simp
  then have "real (n - 1) = real n - 1" by (simp add: of_nat_diff)
  moreover have "real n - 1 \<noteq> 0" "real n \<noteq> 0" using n by simp_all
  ultimately show ?thesis using assms n
    by (simp add: nth_linspace field_simps)
qed

lemma reshape_rotated:
  assumes "shape t = [n, H, W, 2]" "0 < H" "0 < W"
  shows "\<exists>u. reshape_infer t [1] [W, 2] = Inr u \<and> shape u = [1, n * H, W, 2] \<and>
           (\<forall>k i j c. k < n \<longrightarrow> i < H \<longrightarrow> j < W \<longrightarrow> c < 2 \<longrightarrow>
              dat u [0, k * H + i, j, c] = dat t [k, i, j, c])"
proof -
  have idx: "unflat_index (shape t) (flat_index [1, n * H, W, 2] [0, k * H + i, j, c])
          = [k, i, j, c]"
    if "k < n" "i < H" "j < W" "c < 2" for k i j c
    unfolding assms(1)
  proof (rule unflat_flat_other)
    show "flat_index [1, n * H, W, 2] [0, k * H + i, j, c] = flat_index [n, H, W, 2] [k, i, j, c]"
      by (simp add: algebra_simps)
    show "list_all2 (<) [k, i, j, c] [n, H, W, 2]"
      using that by simp
  qed
  have d: "n * (H * (W * 2)) div (W * 2) = n * H"
    using assms by simp
  have m: "n * (H * (W * 2)) mod (W * 2) = 0"
    by (metis mod_mult_self2_is_0 mult.assoc)
  have ri: "reshape_infer t [1] [W, 2] = reshape t [1, n * H, W, 2]"
    using assms d m by (simp add: reshape_infer_def numel_def)
  have "numel [1, n * H, W, 2] = numel (shape t)"
    by (simp add: assms numel_def algebra_simps)
  from reshape_ok [OF this] obtain u where
    u: "reshape t [1, n * H, W, 2] = Inr u" "shape u = [1, n * H, W, 2]"
       "\<And>idx. dat u idx = dat t (unflat_index (shape t) (flat_index [1, n * H, W, 2] idx))"
    by blast
  have "dat u [0, k * H + i, j, c] = dat t [k, i, j, c]"
    if "k < n" "i < H" "j < W" "c < 2" for k i j c
    by (simp only: u(3) idx [OF that])
  with u(1,2) ri show ?thesis by simp
qed

lemma affine_grid_rotations:
  assumes "length ths = n" "0 < n" "0 < H" "0 < W"
  shows "\<exists>g. affine_grid (rotations ths) [n, 1, H, W] = Inr g \<and> shape g = [n, H, W, 2] \<and>
           (\<forall>k i j. dat g [k, i, j, 0]
                = cos (ths ! k) * base_coord W j + sin (ths ! k) * base_coord H i) \<and>
           (\<forall>k i j. dat g [k, i, j, 1]
                = - sin (ths ! k) * base_coord W j + cos (ths ! k) * base_coord H i)"
  using assms by (simp add: affine_grid_def rotations_def)

lemma radon_init_ok:
  assumes "0 < n" "0 < H"
  shows "\<exists>r. radon_init n H = Inr r \<and> n_angles r = n \<and> shape (rotated r) = [1, n * H, H, 2] \<and>
           (\<forall>k i j. k < n \<longrightarrow> i < H \<longrightarrow> j < H \<longrightarrow>
              dat (rotated r) [0, k * H + i, j, 0]
                = cos (real k * pi / real n) * base_coord H j
                  + sin (real k * pi / real n) * base_coord H i \<and>
              dat (rotated r) [0, k * H + i, j, 1]
                = - sin (real k * pi / real n) * base_coord H j
                  + cos (real k * pi / real n) * base_coord H i)"
proof -
  define ths where "ths = linspace 0 (pi - pi / real n) n"
  have th: "thetas n = Inr ths" using assms by (simp add: thetas_def ths_def)
  have len: "length ths = n" by (simp add: ths_def)
  from affine_grid_rotations [OF len assms(1,2,2)] obtain g where
    g: "affine_grid (rotations ths) [n, 1, H, H] = Inr g" "shape g = [n, H, H, 2]"
       "\<And>k i j. dat g [k, i, j, 0]
                = cos (ths ! k) * base_coord H j + sin (ths ! k) * base_coord H i"
       "\<And>k i j. dat g [k, i, j, 1]
                = - sin (ths ! k) * base_coord H j + cos (ths ! k) * base_coord H i"
    by blast
  from reshape_rotated [OF g(2) assms(2) assms(2)] obtain u where
    u: "reshape_infer g [1] [H, 2] = Inr u" "shape u = [1, n * H, H, 2]"
       "\<And>k i j c. k < n \<Longrightarrow> i < H \<Longrightarrow> j < H \<Longrightarrow> c < 2 \<Longrightarrow>
              dat u [0, k * H + i, j, c] = dat g [k, i, j, c]"
    by blast
  have "radon_init n H = Inr \<lparr>n_angles = n, rotated = u\<rparr>"
    using u(1) g(1) by (simp add: radon_init_def th)
  moreover have "dat u [0, k * H + i, j, 0]
                = cos (real k * pi / real n) * base_coord H j
                  + sin (real k * pi / real n) * base_coord H i"
      and "dat u [0, k * H + i, j, 1]
                = - sin (real k * pi / real n) * base_coord H j
                  + cos (real k * pi / real n) * base_coord H i"
    if "k < n" "i < H" "j < H" for k i j
    using that u(3) [of k i j 0] u(3) [of k i j 1] g(3,4) thetas_nth [OF assms(1) that(1)]
    by (simp_all add: ths_def)
  ultimately show ?thesis using u(2) by simp
qed


lemma radon_forward_ok:
  assumes r: "n_angles r = n" "shape (rotated r) = [1, n * H, H, 2]"
    and img: "shape img = [b, 1, H, W]" "0 < H" "0 < W"
  shows "\<exists>out. radon_forward r img = Inr out \<and> shape out = [b, 1, H, n] \<and>
           (\<forall>bi j k. bi < b \<longrightarrow> j < H \<longrightarrow> k < n \<longrightarrow>
              dat out [bi, 0, j, k] =
                (\<Sum>i < H. bilinear (dat img) bi 0 H W
                            (dat (rotated r) [0, k * H + i, j, 0])
                            (dat (rotated r) [0, k * H + i, j, 1])))"
proof -
  from repeat_batch [OF r(2), of b] obtain g where
    g: "repeat (rotated r) [b, 1, 1, 1] = Inr g" "shape g = [b, n * H, H, 2]"
       "\<And>i j k l. j < n * H \<Longrightarrow> k < H \<Longrightarrow> l < 2 \<Longrightarrow> dat g [i, j, k, l] = dat (rotated r) [0, j, k, l]"
    by blast
  from grid_sample_ok [OF img(1) g(2) img(2,3)] obtain sampled where
    s: "grid_sample img g = Inr sampled" "shape sampled = [b, 1, n * H, H]"
       "\<And>n c h w. dat sampled [n, c, h, w] =
              bilinear (dat img) n c H W (dat g [n, h, w, 0]) (dat g [n, h, w, 1])"
    by blast
  from reshape_merge_rows [OF s(2)] obtain out_fl where
    f: "reshape sampled [b, 1, n, H, H] = Inr out_fl" "shape out_fl = [b, 1, n, H, H]"
       "\<And>bi k i j. bi < b \<Longrightarrow> k < n \<Longrightarrow> i < H \<Longrightarrow> j < H \<Longrightarrow>
              dat out_fl [bi, 0, k, i, j] = dat sampled [bi, 0, k * H + i, j]"
    by blast
  from sum_dim_3_of_5 [OF f(2)] obtain summed where
    m: "sum_dim out_fl 3 = Inr summed" "shape summed = [b, 1, n, H]"
       "\<And>i j k l. dat summed [i, j, k, l] = (\<Sum>m < H. dat out_fl [i, j, k, m, l])"
    by blast
  from permute_0132 [OF m(2)] obtain out where
    p: "permute summed [0, 1, 3, 2] = Inr out" "shape out = [b, 1, H, n]"
       "\<And>i j k l. dat out [i, j, k, l] = dat summed [i, j, l, k]"
    by blast
  have run: "radon_forward r img = Inr out"
    using g(1) s(1) f(1) m(1) p(1) by (simp add: radon_forward_def img(1) r(1))
  have "dat out [bi, 0, j, k] =
          (\<Sum>i < H. bilinear (dat img) bi 0 H W
                      (dat (rotated r) [0, k * H + i, j, 0])
                      (dat (rotated r) [0, k * H + i, j, 1]))"
    if "bi < b" "j < H" "k < n" for bi j k
  proof -
    have "dat out [bi, 0, j, k] = (\<Sum>i < H. dat out_fl [bi, 0, k, i, j])"
      by (simp add: p(3) m(3))
    also have "\<dots> = (\<Sum>i < H. dat sampled [bi, 0, k * H + i, j])"
      using that by (intro sum.cong refl f(3)) simp_all
    also have "\<dots> = (\<Sum>i < H. bilinear (dat img) bi 0 H W
                      (dat (rotated r) [0, k * H + i, j, 0])
                      (dat (rotated r) [0, k * H + i, j, 1]))"
    proof (intro sum.cong refl)
      fix i assume "i \<in> {..<H}"
      then have "k * H + i < n * H" using that by (simp add: row_index_less)
      then show "dat sampled [bi, 0, k * H + i, j]
          = bilinear (dat img) bi 0 H W (dat (rotated r) [0, k * H + i, j, 0])
                      (dat (rotated r) [0, k * H + i, j, 1])"
        using that by (simp add: s(3) g(3))
    qed
    finally show ?thesis .
  qed
  with run p(2) show ?thesis by blast
qed


subsection \<open>The ramp filter\<close>

lemma ceiling_half: "\<lceil>real m / 2\<rceil> = int ((m + 1) div 2)"
proof -
  have "real m / 2 = real_of_int (int m) / real_of_int 2" by simp
  then have "\<lceil>real m / 2\<rceil> = - (- int m div 2)"
    by (simp only: ceiling_divide_eq_div)
  then show ?thesis by linarith
qed

lemma ceiling_half_pred: "nat \<lceil>(real m - 1) / 2\<rceil> = m div 2"
proof -
  have "(real m - 1) / 2 = real_of_int (int m - 1) / real_of_int 2" by simp
  then have "\<lceil>(real m - 1) / 2\<rceil> = - (- (int m - 1) div 2)"
    by (simp only: ceiling_divide_eq_div)
  then show ?thesis by linarith
qed

lemma trunc_of_int [simp]: "trunc (real_of_int z) = z"
  by (simp add: trunc_def)

lemma arange_up:
  "arange_int 1 (real (2 * m) / 2 + 1) 2 = map (\<lambda>i. 1 + 2 * int i) [0..<(m + 1) div 2]"
proof -
  have t: "trunc 1 = 1" "trunc (1 + real_of_int 2) = 3"
    using trunc_of_int [of 1] trunc_of_int [of 3] by simp_all
  have "(real (2 * m) / 2 + 1 - 1) / real_of_int 2 = real m / 2" by simp
  then have l: "nat \<lceil>(real (2 * m) / 2 + 1 - 1) / real_of_int 2\<rceil> = (m + 1) div 2"
    by (simp only: ceiling_half nat_int)
  show ?thesis unfolding arange_int_def l t by simp
qed

lemma arange_down:
  "arange_int (real (2 * m) / 2 - 1) 0 (- 2) = map (\<lambda>i. int m - 1 - 2 * int i) [0..<m div 2]"
proof -
  have t: "trunc (real (2 * m) / 2 - 1) = int m - 1"
          "trunc (real (2 * m) / 2 - 1 + real_of_int (- 2)) = int m - 3"
    using trunc_of_int [of "int m - 1"] trunc_of_int [of "int m - 3"] by simp_all
  have "(0 - (real (2 * m) / 2 - 1)) / real_of_int (- 2) = (real m - 1) / 2"
    by (simp add: field_simps)
  then have l: "nat \<lceil>(0 - (real (2 * m) / 2 - 1)) / real_of_int (- 2)\<rceil> = m div 2"
    by (simp only: ceiling_half_pred)
  show ?thesis unfolding arange_int_def l t by (simp add: algebra_simps)
qed

lemma ramp_index_even:
  "ramp_index (2 * m) =
     map (\<lambda>i. 1 + 2 * int i) [0..<(m + 1) div 2] @
     map (\<lambda>i. int m - 1 - 2 * int i) [0..<m div 2]"
  by (simp only: ramp_index_def arange_up arange_down)

lemma length_ramp_index_even: "length (ramp_index (2 * m)) = m"
  by (simp add: ramp_index_even)

lemma filter_odd_upto: "filter odd [1..2 * int q] = map (\<lambda>i. 1 + 2 * int i) [0..<q]"
proof (induction q)
  case 0
  show ?case by simp
next
  case (Suc q)
  have "[1..2 * int (Suc q)] = [1..2 * int q] @ [2 * int q + 1, 2 * int q + 2]"
  proof -
    have "[1..2 * int (Suc q)] = [1..2 * int q + 1] @ [2 * int q + 2]"
      using upto_rec2 [of 1 "2 * int q + 2"] by (simp add: ac_simps)
    also have "[1..2 * int q + 1] = [1..2 * int q] @ [2 * int q + 1]"
      using upto_rec2 [of 1 "2 * int q + 1"] by simp
    finally show ?thesis by simp
  qed
  with Suc show ?case by simp
qed

lemma filter_odd_upto_pred: "filter odd [1..2 * int q - 1] = map (\<lambda>i. 1 + 2 * int i) [0..<q]"
proof (cases q)
  case 0
  then show ?thesis by simp
next
  case (Suc p)
  have "[1..2 * int q] = [1..2 * int q - 1] @ [2 * int q]"
    using upto_rec2 [of 1 "2 * int q"] Suc by simp
  then have "filter odd [1..2 * int q] = filter odd [1..2 * int q - 1]" by simp
  then show ?thesis by (simp add: filter_odd_upto)
qed

lemma spec_ramp_index_mult4:
  "spec_ramp_index (4 * q) = ramp_index (4 * q)"
proof -
  have c: "ramp_index (2 * (2 * q)) =
     map (\<lambda>i. 1 + 2 * int i) [0..<q] @ map (\<lambda>i. 2 * int q - 1 - 2 * int i) [0..<q]"
    by (simp only: ramp_index_even) simp
  have r: "rev (map (\<lambda>i. 1 + 2 * int i) [0..<q]) = map (\<lambda>i. 2 * int q - 1 - 2 * int i) [0..<q]"
    by (rule nth_equalityI) (auto simp: rev_nth)
  have "spec_ramp_index (4 * q)
          = filter odd [1..2 * int q] @ rev (filter odd [1..2 * int q - 1])"
    by (simp add: spec_ramp_index_def)
  also have "\<dots> = map (\<lambda>i. 1 + 2 * int i) [0..<q] @ map (\<lambda>i. 2 * int q - 1 - 2 * int i) [0..<q]"
    by (simp only: filter_odd_upto filter_odd_upto_pred r)
  finally show ?thesis using c by simp
qed

lemma ramp_response_even:
  assumes "0 < m"
  shows "ramp_response (2 * m) =
     Inr (map (\<lambda>i. if i = 0 then 0.25
              else if odd i then - 1 / (pi * real_of_int (ramp_index (2 * m) ! (i div 2))) ^ 2
              else 0) [0..<2 * m])"
proof -
  have "map (\<lambda>i. if odd i
                 then map (\<lambda>m. - 1 / (pi * real_of_int m) ^ 2) (ramp_index (2 * m)) ! (i div 2)
                 else (replicate (2 * m) 0)[0 := 0.25] ! i) [0..<2 * m]
      = map (\<lambda>i. if i = 0 then 0.25
              else if odd i then - 1 / (pi * real_of_int (ramp_index (2 * m) ! (i div 2))) ^ 2
              else 0) [0..<2 * m]"
  proof (rule map_cong [OF refl])
    fix i assume "i \<in> set [0..<2 * m]"
    then have i: "i < 2 * m" by simp
    then have "i div 2 < length (ramp_index (2 * m))"
      by (simp add: length_ramp_index_even)
    then show "(if odd i
                 then map (\<lambda>m. - 1 / (pi * real_of_int m) ^ 2) (ramp_index (2 * m)) ! (i div 2)
                 else (replicate (2 * m) 0)[0 := 0.25] ! i)
         = (if i = 0 then 0.25
              else if odd i then - 1 / (pi * real_of_int (ramp_index (2 * m) ! (i div 2))) ^ 2
              else 0)"
      using i by (auto simp: nth_list_update)
  qed
  then show ?thesis
    using assms by (simp add: ramp_response_def set_odd_entries_def length_ramp_index_even)
qed

lemma rampfilter_even:
  assumes "0 < m"
  shows "\<exists>t. rampfilter (2 * m) = Inr t \<and> shape t = [2 * m]"
  using ramp_response_even [OF assms]
  by (simp add: rampfilter_def tensor_of_list_def dft_def)


lemma ramp_response_mult4:
  assumes "4 dvd sz" "0 < sz"
  shows "ramp_response sz = Inr (spec_ramp_response sz)"
proof -
  from assms obtain q where q: "sz = 4 * q" "0 < q" by (auto elim: dvdE)
  have "ramp_response (2 * (2 * q)) =
     Inr (map (\<lambda>i. if i = 0 then 0.25
              else if odd i then - 1 / (pi * real_of_int (ramp_index (2 * (2 * q)) ! (i div 2))) ^ 2
              else 0) [0..<2 * (2 * q)])"
    using q(2) by (intro ramp_response_even) simp
  moreover have "2 * (2 * q) = 4 * q" by simp
  ultimately show ?thesis
    by (simp only: q(1) spec_ramp_response_def spec_ramp_index_mult4)
qed

lemma ramp_response_2: "ramp_response 2 = Inr (spec_ramp_response 2)"
proof -
  have c: "ramp_index 2 = [1]"
    using ramp_index_even [of 1] by simp
  have s: "spec_ramp_index 2 = [1]"
    by (simp add: spec_ramp_index_def upto.simps)
  have "ramp_response (2 * 1) =
     Inr (map (\<lambda>i. if i = 0 then 0.25
              else if odd i then - 1 / (pi * real_of_int (ramp_index (2 * 1) ! (i div 2))) ^ 2
              else 0) [0..<2 * 1])"
    by (intro ramp_response_even) simp
  then show ?thesis by (simp add: spec_ramp_response_def c s)
qed

lemma ramp_index_last_odd_half:
  assumes "0 < q"
  shows "ramp_index (2 * (2 * q + 1)) ! (2 * q) = 2"
proof -
  have "ramp_index (2 * (2 * q + 1)) =
     map (\<lambda>i. 1 + 2 * int i) [0..<q + 1] @ map (\<lambda>i. int (2 * q + 1) - 1 - 2 * int i) [0..<q]"
    by (simp only: ramp_index_even) simp
  moreover have "2 * q - (q + 1) = q - 1" by simp
  ultimately show ?thesis using assms by (simp add: nth_append)
qed

lemma spec_ramp_index_last_odd_half:
  assumes "0 < q"
  shows "spec_ramp_index (2 * (2 * q + 1)) ! (2 * q) = 1"
proof -
  have a: "filter odd [1..int (2 * q + 1)] = map (\<lambda>i. 1 + 2 * int i) [0..<q + 1]"
    using filter_odd_upto_pred [of "q + 1"] by (simp add: algebra_simps)
  have b: "filter odd [1..int (2 * q + 1) - 1] = map (\<lambda>i. 1 + 2 * int i) [0..<q]"
    using filter_odd_upto [of q] by simp
  have "spec_ramp_index (2 * (2 * q + 1)) =
     map (\<lambda>i. 1 + 2 * int i) [0..<q + 1] @ rev (map (\<lambda>i. 1 + 2 * int i) [0..<q])"
    unfolding spec_ramp_index_def using a b by simp
  moreover have "2 * q - (q + 1) = q - 1" by simp
  ultimately show ?thesis using assms by (simp add: nth_append rev_nth)
qed

lemma ramp_response_odd_half:
  assumes "0 < q"
  shows "ramp_response (2 * (2 * q + 1)) \<noteq> Inr (spec_ramp_response (2 * (2 * q + 1)))"
proof
  define N where "N = 2 * (2 * q + 1)"
  define i where "i = 4 * q + 1"
  assume "ramp_response (2 * (2 * q + 1)) = Inr (spec_ramp_response (2 * (2 * q + 1)))"
  then have eq: "ramp_response N = Inr (spec_ramp_response N)" by (simp only: N_def)
  have i: "i < N" "odd i" "i \<noteq> 0" "i div 2 = 2 * q" by (simp_all add: i_def N_def)
  have "ramp_response N =
     Inr (map (\<lambda>i. if i = 0 then 0.25
              else if odd i then - 1 / (pi * real_of_int (ramp_index N ! (i div 2))) ^ 2
              else 0) [0..<N])"
    unfolding N_def by (intro ramp_response_even) simp
  with eq have "map (\<lambda>i. if i = 0 then 0.25
              else if odd i then - 1 / (pi * real_of_int (ramp_index N ! (i div 2))) ^ 2
              else 0) [0..<N] ! i = spec_ramp_response N ! i"
    by simp
  then have "- 1 / (pi * real_of_int (ramp_index N ! (2 * q))) ^ 2
      = - 1 / (pi * real_of_int (spec_ramp_index N ! (2 * q))) ^ 2"
    using i by (simp add: spec_ramp_response_def)
  then have "- 1 / (pi * 2) ^ 2 = - 1 / (pi * 1) ^ 2"
    unfolding N_def
    by (simp only: ramp_index_last_odd_half [OF assms] spec_ramp_index_last_odd_half [OF assms])
       simp
  then show False
    by (simp add: power2_eq_square field_simps)
qed

lemma ramp_response_spec_iff:
  assumes "even sz" "0 < sz"
  shows "ramp_response sz = Inr (spec_ramp_response sz) \<longleftrightarrow> 4 dvd sz \<or> sz = 2"
proof
  assume "4 dvd sz \<or> sz = 2"
  then show "ramp_response sz = Inr (spec_ramp_response sz)"
    using assms(2) ramp_response_mult4 ramp_response_2 by blast
next
  assume eq: "ramp_response sz = Inr (spec_ramp_response sz)"
  show "4 dvd sz \<or> sz = 2"
  proof (rule ccontr)
    assume n: "\<not> (4 dvd sz \<or> sz = 2)"
    from assms(1) obtain m where m: "sz = 2 * m" by (auto elim: evenE)
    with n have "odd m" by auto
    then obtain q where q: "m = 2 * q + 1" by (auto elim: oddE)
    with n m have "0 < q" by auto
    from ramp_response_odd_half [OF this] eq show False by (simp add: m q)
  qed
qed

subsection \<open>Construction of the backward operator\<close>

lemma padded_pow2: "\<exists>k\<ge>6. projection_size_padded d = 2 ^ k"
proof (cases "64 \<le> (2::nat) ^ ceillog2 (2 * d)")
  case True
  have "6 \<le> ceillog2 (2 * d)"
  proof (rule ccontr)
    assume "\<not> 6 \<le> ceillog2 (2 * d)"
    then have "ceillog2 (2 * d) \<le> 5" by simp
    then have "(2::nat) ^ ceillog2 (2 * d) \<le> 2 ^ 5" by (intro power_increasing) simp_all
    with True show False by simp
  qed
  with True show ?thesis by (auto simp: projection_size_padded_def max_def)
next
  case False
  then have "projection_size_padded d = 2 ^ 6" by (simp add: projection_size_padded_def max_def)
  then show ?thesis by blast
qed

lemma padded_ge: "2 * d \<le> projection_size_padded d"
  using le_two_power_ceillog2 [of "2 * d"] by (simp add: projection_size_padded_def)

lemma padded_ge_64: "64 \<le> projection_size_padded d"
  by (simp add: projection_size_padded_def)

lemma padded_least:
  assumes "2 * d \<le> 2 ^ k" "64 \<le> (2::nat) ^ k"
  shows "projection_size_padded d \<le> 2 ^ k"
proof (cases "d = 0")
  case True
  with assms show ?thesis by (simp add: projection_size_padded_def)
next
  case False
  then have "ceillog2 (2 * d) \<le> k" using assms(1) by (simp add: ceillog2_le_iff)
  then have "(2::nat) ^ ceillog2 (2 * d) \<le> 2 ^ k" by (simp add: power_increasing)
  with assms(2) show ?thesis by (simp add: projection_size_padded_def)
qed

lemma padded_dvd4: "4 dvd projection_size_padded d"
proof -
  from padded_pow2 obtain k where k: "6 \<le> k" "projection_size_padded d = 2 ^ k" by blast
  then have "k = 2 + (k - 2)" by simp
  then have "(2::nat) ^ k = 2 ^ 2 * 2 ^ (k - 2)"
    by (metis power_add)
  with k(2) show ?thesis by simp
qed

lemma rampfilter_padded:
  "\<exists>t. rampfilter (projection_size_padded d) = Inr t \<and> shape t = [projection_size_padded d]"
proof -
  have "0 < projection_size_padded d" using padded_ge_64 [of d] by simp
  with padded_dvd4 [of d] have "ramp_response (projection_size_padded d)
      = Inr (spec_ramp_response (projection_size_padded d))"
    by (intro ramp_response_mult4)
  then show ?thesis
    by (simp add: rampfilter_def tensor_of_list_def dft_def spec_ramp_response_def)
qed

lemma reshape_fbp_grid:
  assumes "shape t = [n, H, W, 2]"
  shows "\<exists>u. reshape t [n * H, W, 2] = Inr u \<and> shape u = [n * H, W, 2] \<and>
           (\<forall>k i j c. k < n \<longrightarrow> i < H \<longrightarrow> j < W \<longrightarrow> c < 2 \<longrightarrow>
              dat u [k * H + i, j, c] = dat t [k, i, j, c])"
proof -
  have idx: "unflat_index (shape t) (flat_index [n * H, W, 2] [k * H + i, j, c])
          = [k, i, j, c]"
    if "k < n" "i < H" "j < W" "c < 2" for k i j c
    unfolding assms(1)
  proof (rule unflat_flat_other)
    show "flat_index [n * H, W, 2] [k * H + i, j, c] = flat_index [n, H, W, 2] [k, i, j, c]"
      by (simp add: algebra_simps)
    show "list_all2 (<) [k, i, j, c] [n, H, W, 2]"
      using that by simp
  qed
  have "numel [n * H, W, 2] = numel (shape t)"
    by (simp add: assms numel_def algebra_simps)
  from reshape_ok [OF this] obtain u where
    u: "reshape t [n * H, W, 2] = Inr u" "shape u = [n * H, W, 2]"
       "\<And>idx. dat u idx = dat t (unflat_index (shape t) (flat_index [n * H, W, 2] idx))"
    by blast
  have "dat u [k * H + i, j, c] = dat t [k, i, j, c]"
    if "k < n" "i < H" "j < W" "c < 2" for k i j c
    by (simp only: u(3) idx [OF that])
  with u(1,2) show ?thesis by simp
qed

lemma cat_angle_tgrid:
  assumes "length ths = n" "shape gx = [H, W]"
  shows "\<exists>yt. cat_last (angle_coords (tgrid ths gx gy) n) (tgrid ths gx gy) = Inr yt \<and>
           shape yt = [n, H, W, 2] \<and>
           (\<forall>k i j. dat yt [k, i, j, 0] = linspace (- 1) 1 n ! k) \<and>
           (\<forall>k i j. dat yt [k, i, j, 1]
                = dat gx [i, j] * cos (ths ! k) - dat gy [i, j] * sin (ths ! k))"
  using assms by (simp add: cat_last_def angle_coords_def tgrid_def)

lemma fbp_init_ok:
  assumes "0 < n" "0 < H"
  shows "\<exists>op. fbp_init n H circ filt f32 = Inr op \<and>
           image_size op = H \<and> step_size op = 1 \<and> fbp_n_angles op = n \<and>
           circle op = circ \<and> filtered op = filt \<and>
           pad_width op = projection_size_padded H - H \<and>
           shape (fbp_filter op) = [projection_size_padded H] \<and>
           shape (grid op) = [1, n * H, H, 2] \<and>
           shape (reconstruction_circle op) = [H, H] \<and>
           (\<forall>k i j. k < n \<longrightarrow> i < H \<longrightarrow> j < H \<longrightarrow>
              dat (grid op) [0, k * H + i, j, 0] = linspace (- 1) 1 n ! k \<and>
              dat (grid op) [0, k * H + i, j, 1]
                = linspace (- 1) 1 H ! j * cos (real k * pi / real n)
                  - linspace (- 1) 1 H ! i * sin (real k * pi / real n)) \<and>
           (\<forall>i j. dat (reconstruction_circle op) [i, j]
                = f32_le_one (f32 i j)
                    ((linspace (- 1) 1 H ! j) ^ 2 + (linspace (- 1) 1 H ! i) ^ 2))"
proof -
  define ths where "ths = linspace 0 (pi - pi / real n) n"
  define lin where "lin = linspace (- 1) 1 H"
  define gx :: "real tensor" where "gx = \<lparr>shape = [H, H], dat = (\<lambda>idx. lin ! (idx ! 1))\<rparr>"
  define gy :: "real tensor" where "gy = \<lparr>shape = [H, H], dat = (\<lambda>idx. lin ! (idx ! 0))\<rparr>"
  have th: "thetas n = Inr ths" using assms by (simp add: thetas_def ths_def)
  have len: "length ths = n" by (simp add: ths_def)
  have mg: "meshgrid (linspace (- 1) 1 H) (linspace (- 1) 1 H) = (gy, gx)"
    by (simp add: meshgrid_def gx_def gy_def lin_def)
  from rampfilter_padded [of H] obtain flt where
    flt: "rampfilter (projection_size_padded H) = Inr flt"
         "shape flt = [projection_size_padded H]"
    by blast
  have sgx: "shape gx = [H, H]" by (simp add: gx_def)
  from cat_angle_tgrid [OF len sgx, of gy] obtain yt where
    yt: "cat_last (angle_coords (tgrid ths gx gy) n) (tgrid ths gx gy) = Inr yt"
        "shape yt = [n, H, H, 2]"
        "\<And>k i j. dat yt [k, i, j, 0] = linspace (- 1) 1 n ! k"
        "\<And>k i j. dat yt [k, i, j, 1]
                = dat gx [i, j] * cos (ths ! k) - dat gy [i, j] * sin (ths ! k)"
    by blast
  from reshape_fbp_grid [OF yt(2)] obtain v where
    v: "reshape yt [n * H, H, 2] = Inr v" "shape v = [n * H, H, 2]"
       "\<And>k i j c. k < n \<Longrightarrow> i < H \<Longrightarrow> j < H \<Longrightarrow> c < 2 \<Longrightarrow>
              dat v [k * H + i, j, c] = dat yt [k, i, j, c]"
    by blast
  define op where "op = \<lparr>image_size = H, step_size = real H / real H, fbp_n_angles = n,
                     circle = circ, filtered = filt,
                     pad_width = projection_size_padded H - H, fbp_filter = flt,
                     grid = unsqueeze0 v, reconstruction_circle = circle_mask f32 gx gy\<rparr>"
  have run: "fbp_init n H circ filt f32 = Inr op"
    using assms(2) flt(1) th mg yt(1) v(1) by (simp add: fbp_init_def op_def)
  have g: "dat (grid op) [0, k * H + i, j, 0] = linspace (- 1) 1 n ! k"
          "dat (grid op) [0, k * H + i, j, 1]
                = linspace (- 1) 1 H ! j * cos (real k * pi / real n)
                  - linspace (- 1) 1 H ! i * sin (real k * pi / real n)"
    if "k < n" "i < H" "j < H" for k i j
    using that v(3) [of k i j 0] v(3) [of k i j 1] yt(3,4) thetas_nth [OF assms(1) that(1)]
    by (simp_all add: op_def unsqueeze0_def ths_def gx_def gy_def lin_def)
  have m: "dat (reconstruction_circle op) [i, j]
                = f32_le_one (f32 i j)
                    ((linspace (- 1) 1 H ! j) ^ 2 + (linspace (- 1) 1 H ! i) ^ 2)" for i j
    by (simp add: op_def circle_mask_def gx_def gy_def lin_def)
  have "image_size op = H" "step_size op = 1" "fbp_n_angles op = n"
       "circle op = circ" "filtered op = filt"
       "pad_width op = projection_size_padded H - H"
       "shape (fbp_filter op) = [projection_size_padded H]"
       "shape (grid op) = [1, n * H, H, 2]"
       "shape (reconstruction_circle op) = [H, H]"
    using assms(2) flt(2) v(2) by (simp_all add: op_def unsqueeze0_def circle_mask_def gx_def)
  with run g m show ?thesis by blast
qed



subsection \<open>Running the operators\<close>

lemma fbp_init_flags:
  "fbp_init n H c f f32 = Inr op \<Longrightarrow>
   fbp_init n H c' f' f32 = Inr (op\<lparr>circle := c', filtered := f'\<rparr>)"
  by (auto simp: fbp_init_def ebind_def Let_def split: if_splits sum.splits prod.splits)

lemma fbp_init_grid:
  "fbp_init n H c f f32 = Inr op \<Longrightarrow>
   \<exists>op'. fbp_init n H c' f' f32' = Inr op' \<and> grid op' = grid op"
  by (auto simp: fbp_init_def ebind_def Let_def split: if_splits sum.splits prod.splits)

lemma radon_forward_shape:
  assumes r: "n_angles r = n" "shape (rotated r) = [1, n * H, H, 2]"
    and img: "shape img = [b, c, s, w]" and pos: "0 < b" "0 < n"
  shows "if 0 < s \<and> 0 < w \<and> s * s = c * (H * H)
         then \<exists>out. radon_forward r img = Inr out \<and> shape out = [b, 1, s, n]
         else radon_forward r img = Inl RuntimeError"
proof -
  have "b * (n * (s * s)) = b * (c * (n * H * H)) \<longleftrightarrow> s * s = c * (H * H)"
  proof -
    have "b * (c * (n * H * H)) = b * (n * (c * (H * H)))" by (simp add: algebra_simps)
    then show ?thesis using pos by simp
  qed
  then show ?thesis
    using r img pos
    by (simp add: radon_forward_def repeat_def grid_sample_def reshape_def sum_dim_def
        permute_def numel_def upt4)
qed


lemma filter_sinogram_unfiltered:
  "\<not> filtered op \<Longrightarrow> filter_sinogram op inp d = Inr inp"
  by (simp add: filter_sinogram_def)

lemma filter_sinogram_filtered:
  assumes "filtered op" "pad_width op = pw" "shape (fbp_filter op) = [P]" "1 < P" "1 < pw"
    and "shape inp = [b, c, d, a]"
  shows "if d + pw = P
         then \<exists>rf. filter_sinogram op inp d = Inr rf \<and> shape rf = [b, c, d, a]
         else filter_sinogram op inp d = Inl RuntimeError"
  using assms
  by (simp add: filter_sinogram_def pad_rows_def fft_dim2_def ifft_dim2_def tmap_def
      tbinop_def broadcast_shapes_def unsqueeze_last_def slice_dim2_def)


lemma reshape_split_angles:
  assumes "shape t = [b, 1, n * H, W]"
  shows "\<exists>u. reshape t [b, n, 1, H, W] = Inr u \<and> shape u = [b, n, 1, H, W] \<and>
           (\<forall>bi k i j. bi < b \<longrightarrow> k < n \<longrightarrow> i < H \<longrightarrow> j < W \<longrightarrow>
              dat u [bi, k, 0, i, j] = dat t [bi, 0, k * H + i, j])"
proof -
  have idx: "unflat_index (shape t) (flat_index [b, n, 1, H, W] [bi, k, 0, i, j])
          = [bi, 0, k * H + i, j]"
    if "bi < b" "k < n" "i < H" "j < W" for bi k i j
    unfolding assms
  proof (rule unflat_flat_other)
    show "flat_index [b, n, 1, H, W] [bi, k, 0, i, j]
            = flat_index [b, 1, n * H, W] [bi, 0, k * H + i, j]"
      by (simp add: algebra_simps)
    show "list_all2 (<) [bi, 0, k * H + i, j] [b, 1, n * H, W]"
      using that by (simp add: row_index_less)
  qed
  have "numel [b, n, 1, H, W] = numel (shape t)"
    by (simp add: assms numel_def)
  from reshape_ok [OF this] obtain u where
    u: "reshape t [b, n, 1, H, W] = Inr u" "shape u = [b, n, 1, H, W]"
       "\<And>idx. dat u idx = dat t (unflat_index (shape t) (flat_index [b, n, 1, H, W] idx))"
    by blast
  have "dat u [bi, k, 0, i, j] = dat t [bi, 0, k * H + i, j]"
    if "bi < b" "k < n" "i < H" "j < W" for bi k i j
    by (simp only: u(3) idx [OF that])
  with u(1,2) show ?thesis by blast
qed

lemma accumulate_ok:
  assumes op: "fbp_n_angles op = n" "image_size op = H" "shape (grid op) = [1, n * H, H, 2]"
    and rf: "shape rf = [b, 1, D, A]" "0 < D" "0 < A"
  shows "\<exists>acc. accumulate op rf b = Inr acc \<and> shape acc = [b, 1, H, H] \<and>
           (\<forall>bi i j. bi < b \<longrightarrow> i < H \<longrightarrow> j < H \<longrightarrow>
              dat acc [bi, 0, i, j] =
                (\<Sum>k < n. bilinear (dat rf) bi 0 D A
                            (dat (grid op) [0, k * H + i, j, 0])
                            (dat (grid op) [0, k * H + i, j, 1])))"
proof -
  from repeat_batch [OF op(3), of b] obtain g where
    g: "repeat (grid op) [b, 1, 1, 1] = Inr g" "shape g = [b, n * H, H, 2]"
       "\<And>i j k l. j < n * H \<Longrightarrow> k < H \<Longrightarrow> l < 2 \<Longrightarrow> dat g [i, j, k, l] = dat (grid op) [0, j, k, l]"
    by blast
  from grid_sample_ok [OF rf(1) g(2) rf(2,3)] obtain reconstructed where
    s: "grid_sample rf g = Inr reconstructed" "shape reconstructed = [b, 1, n * H, H]"
       "\<And>n c h w. dat reconstructed [n, c, h, w] =
              bilinear (dat rf) n c D A (dat g [n, h, w, 0]) (dat g [n, h, w, 1])"
    by blast
  from reshape_split_angles [OF s(2)] obtain v where
    v: "reshape reconstructed [b, n, 1, H, H] = Inr v" "shape v = [b, n, 1, H, H]"
       "\<And>bi k i j. bi < b \<Longrightarrow> k < n \<Longrightarrow> i < H \<Longrightarrow> j < H \<Longrightarrow>
              dat v [bi, k, 0, i, j] = dat reconstructed [bi, 0, k * H + i, j]"
    by blast
  from sum_dim_1_of_5 [OF v(2)] obtain acc where
    a: "sum_dim v 1 = Inr acc" "shape acc = [b, 1, H, H]"
       "\<And>i j k l. dat acc [i, j, k, l] = (\<Sum>m < n. dat v [i, m, j, k, l])"
    by blast
  have run: "accumulate op rf b = Inr acc"
    using g(1) s(1) v(1) a(1) by (simp add: accumulate_def op(1,2))
  have "dat acc [bi, 0, i, j] =
          (\<Sum>k < n. bilinear (dat rf) bi 0 D A
                      (dat (grid op) [0, k * H + i, j, 0])
                      (dat (grid op) [0, k * H + i, j, 1]))"
    if "bi < b" "i < H" "j < H" for bi i j
  proof -
    have "dat acc [bi, 0, i, j] = (\<Sum>k < n. dat v [bi, k, 0, i, j])"
      by (simp add: a(3))
    also have "\<dots> = (\<Sum>k < n. dat reconstructed [bi, 0, k * H + i, j])"
      using that by (intro sum.cong refl v(3)) simp_all
    also have "\<dots> = (\<Sum>k < n. bilinear (dat rf) bi 0 D A
                      (dat (grid op) [0, k * H + i, j, 0])
                      (dat (grid op) [0, k * H + i, j, 1]))"
    proof (intro sum.cong refl)
      fix k assume "k \<in> {..<n}"
      then have "k * H + i < n * H" using that by (simp add: row_index_less)
      then show "dat reconstructed [bi, 0, k * H + i, j]
          = bilinear (dat rf) bi 0 D A (dat (grid op) [0, k * H + i, j, 0])
                      (dat (grid op) [0, k * H + i, j, 1])"
        using that by (simp add: s(3) g(3))
    qed
    finally show ?thesis .
  qed
  with run a(2) show ?thesis by blast
qed

lemma apply_circle_off:
  "\<not> circle op \<Longrightarrow> apply_circle op t b = Inr t"
  by (simp add: apply_circle_def)

lemma apply_circle_on:
  assumes "circle op" "shape (reconstruction_circle op) = [H, H]" "shape t = [b, 1, H, H]"
  shows "\<exists>u. apply_circle op t b = Inr u \<and> shape u = [b, 1, H, H] \<and>
           (\<forall>bi c i j. i < H \<longrightarrow> j < H \<longrightarrow>
              dat u [bi, c, i, j]
                = (if dat (reconstruction_circle op) [i, j] then dat t [bi, c, i, j] else 0))"
  using assms
  by (simp add: apply_circle_def repeat_def tmap_def zero_where_mask_is_zero_def)


lemma ebind_eq_Inr:
  "ebind m f = Inr y \<Longrightarrow> \<exists>x. m = Inr x \<and> f x = Inr y"
  by (cases m) simp_all

lemma apply_circle_value:
  assumes "apply_circle op t b = Inr u" "shape (reconstruction_circle op) = [H, H]"
    "i < H" "j < H"
  shows "dat u [bi, c, i, j]
           = (if circle op \<and> \<not> dat (reconstruction_circle op) [i, j] then 0
              else dat t [bi, c, i, j])"
  using assms
  by (auto simp: apply_circle_def repeat_def tmap_def zero_where_mask_is_zero_def
      split: if_splits)

lemma fbp_forward_Inr:
  assumes "fbp_forward op inp = Inr out"
  shows "\<exists>b c d a rf acc z. shape inp = [b, c, d, a] \<and>
           filter_sinogram op inp d = Inr rf \<and> accumulate op rf b = Inr acc \<and>
           apply_circle op (tmap (\<lambda>v. v / step_size op) acc) b = Inr z \<and>
           out = tmap (\<lambda>v. v * pi / (2 * real (fbp_n_angles op))) z"
proof -
  from assms obtain b c d a where sh: "shape inp = [b, c, d, a]"
    by (auto simp: fbp_forward_def split: list.splits)
  with assms have e: "ebind (filter_sinogram op inp d) (\<lambda>radon_filtered.
          ebind (accumulate op radon_filtered b) (\<lambda>acc.
          ebind (apply_circle op (tmap (\<lambda>v. v / step_size op) acc) b) (\<lambda>reconstructed.
          Inr (tmap (\<lambda>v. v * pi / (2 * real (fbp_n_angles op))) reconstructed)))) = Inr out"
    by (simp add: fbp_forward_def)
  from ebind_eq_Inr [OF e] obtain rf where
    rf: "filter_sinogram op inp d = Inr rf"
        "ebind (accumulate op rf b) (\<lambda>acc.
          ebind (apply_circle op (tmap (\<lambda>v. v / step_size op) acc) b) (\<lambda>reconstructed.
          Inr (tmap (\<lambda>v. v * pi / (2 * real (fbp_n_angles op))) reconstructed))) = Inr out"
    by blast
  from ebind_eq_Inr [OF rf(2)] obtain acc where
    acc: "accumulate op rf b = Inr acc"
         "ebind (apply_circle op (tmap (\<lambda>v. v / step_size op) acc) b) (\<lambda>reconstructed.
          Inr (tmap (\<lambda>v. v * pi / (2 * real (fbp_n_angles op))) reconstructed)) = Inr out"
    by blast
  from ebind_eq_Inr [OF acc(2)] obtain z where
    z: "apply_circle op (tmap (\<lambda>v. v / step_size op) acc) b = Inr z"
       "Inr (tmap (\<lambda>v. v * pi / (2 * real (fbp_n_angles op))) z) = (Inr out :: error + real tensor)"
    by blast
  from z(2) have "out = tmap (\<lambda>v. v * pi / (2 * real (fbp_n_angles op))) z" by simp
  with sh rf(1) acc(1) z(1) show ?thesis by blast
qed

lemma fbp_forward_value:
  assumes "fbp_forward op inp = Inr out" "shape inp = [b, c, d, a]"
    "shape (reconstruction_circle op) = [H, H]" "i < H" "j < H"
  shows "\<exists>rf acc. filter_sinogram op inp d = Inr rf \<and> accumulate op rf b = Inr acc \<and>
           dat out [bi, ch, i, j]
             = (if circle op \<and> \<not> dat (reconstruction_circle op) [i, j] then 0
                else dat acc [bi, ch, i, j] / step_size op * pi / (2 * real (fbp_n_angles op)))"
proof -
  from fbp_forward_Inr [OF assms(1)] assms(2) obtain rf acc z where
    f: "filter_sinogram op inp d = Inr rf" "accumulate op rf b = Inr acc"
       "apply_circle op (tmap (\<lambda>v. v / step_size op) acc) b = Inr z"
       "out = tmap (\<lambda>v. v * pi / (2 * real (fbp_n_angles op))) z"
    by auto
  from apply_circle_value [OF f(3) assms(3,4,5), of bi ch] f(4)
  have "dat out [bi, ch, i, j]
             = (if circle op \<and> \<not> dat (reconstruction_circle op) [i, j] then 0
                else dat acc [bi, ch, i, j] / step_size op * pi / (2 * real (fbp_n_angles op)))"
    by (simp add: tmap_def)
  with f(1,2) show ?thesis by blast
qed

lemma fbp_forward_ok:
  assumes op: "fbp_n_angles op = n" "image_size op = H" "shape (grid op) = [1, n * H, H, 2]"
      "shape (reconstruction_circle op) = [H, H]"
      "pad_width op = pw" "shape (fbp_filter op) = [P]" "1 < P" "1 < pw" "H + pw = P"
    and inp: "shape inp = [b, 1, D, A]" "0 < D" "0 < A" "filtered op \<longrightarrow> D = H"
  shows "\<exists>out. fbp_forward op inp = Inr out \<and> shape out = [b, 1, H, H]"
proof -
  have "\<exists>rf. filter_sinogram op inp D = Inr rf \<and> shape rf = [b, 1, D, A]"
  proof (cases "filtered op")
    case True
    from filter_sinogram_filtered [OF True op(5,6,7,8) inp(1)] inp(4) True op(9)
    show ?thesis by simp
  next
    case False
    with inp(1) show ?thesis by (simp add: filter_sinogram_unfiltered)
  qed
  then obtain rf where rf: "filter_sinogram op inp D = Inr rf" "shape rf = [b, 1, D, A]"
    by blast
  from accumulate_ok [OF op(1,2,3) rf(2) inp(2,3)] obtain acc where
    acc: "accumulate op rf b = Inr acc" "shape acc = [b, 1, H, H]"
    by blast
  have "\<exists>z. apply_circle op (tmap (\<lambda>v. v / step_size op) acc) b = Inr z \<and> shape z = [b, 1, H, H]"
  proof (cases "circle op")
    case True
    have "shape (tmap (\<lambda>v. v / step_size op) acc) = [b, 1, H, H]"
      by (simp add: tmap_def acc(2))
    from apply_circle_on [OF True op(4) this] show ?thesis by blast
  next
    case False
    then show ?thesis by (simp add: apply_circle_off tmap_def acc(2))
  qed
  then obtain z where
    z: "apply_circle op (tmap (\<lambda>v. v / step_size op) acc) b = Inr z" "shape z = [b, 1, H, H]"
    by blast
  show ?thesis
    using rf(1) acc(1) z by (simp add: fbp_forward_def inp(1) tmap_def)
qed


lemma padded_pad_width:
  "1 < projection_size_padded H - H \<and> H + (projection_size_padded H - H) = projection_size_padded H
   \<and> 1 < projection_size_padded H"
  using padded_ge [of H] padded_ge_64 [of H] by arith



lemma fbp_init_pos:
  "fbp_init n H c f f32 = Inr op \<Longrightarrow> 0 < n \<and> 0 < H"
  by (auto simp: fbp_init_def thetas_def Let_def ebind_def split: if_splits sum.splits)

lemma fbp_init_facts:
  assumes "fbp_init n H circ filt f32 = Inr op"
  shows "image_size op = H" "step_size op = 1" "fbp_n_angles op = n"
        "circle op = circ" "filtered op = filt"
        "pad_width op = projection_size_padded H - H"
        "shape (fbp_filter op) = [projection_size_padded H]"
        "shape (grid op) = [1, n * H, H, 2]"
        "shape (reconstruction_circle op) = [H, H]"
        "dat (reconstruction_circle op) [i, j]
                = f32_le_one (f32 i j)
                    ((linspace (- 1) 1 H ! j) ^ 2 + (linspace (- 1) 1 H ! i) ^ 2)"
proof -
  from fbp_init_pos [OF assms] have "0 < n" "0 < H" by simp_all
  from fbp_init_ok [OF this, of circ filt f32] assms
  show "image_size op = H" "step_size op = 1" "fbp_n_angles op = n"
        "circle op = circ" "filtered op = filt"
        "pad_width op = projection_size_padded H - H"
        "shape (fbp_filter op) = [projection_size_padded H]"
        "shape (grid op) = [1, n * H, H, 2]"
        "shape (reconstruction_circle op) = [H, H]"
        "dat (reconstruction_circle op) [i, j]
                = f32_le_one (f32 i j)
                    ((linspace (- 1) 1 H ! j) ^ 2 + (linspace (- 1) 1 H ! i) ^ 2)"
    by auto
qed

lemma fbp_runs:
  assumes "0 < n" "0 < H" "shape inp = [b, 1, D, A]" "0 < D" "0 < A" "filt \<longrightarrow> D = H"
  shows "\<exists>op out. fbp_init n H circ filt f32 = Inr op \<and> fbp_forward op inp = Inr out \<and>
           shape out = [b, 1, H, H]"
proof -
  from fbp_init_ok [OF assms(1,2), of circ filt f32] obtain op where
    init: "fbp_init n H circ filt f32 = Inr op" by blast
  note op = fbp_init_facts [OF init]
  have pw: "1 < projection_size_padded H" "1 < projection_size_padded H - H"
      "H + (projection_size_padded H - H) = projection_size_padded H"
    using padded_pad_width [of H] by simp_all
  have flt: "filtered op \<longrightarrow> D = H" using assms(6) by (simp add: op(5))
  from fbp_forward_ok [OF op(3,1,8,9,6,7) pw assms(3,4,5) flt] init
  show ?thesis by blast
qed

lemma radon_runs:
  assumes "0 < n" "0 < H" "0 < W" "shape img = [b, 1, H, W]"
  shows "\<exists>r out. radon_init n H = Inr r \<and> radon_forward r img = Inr out \<and>
           shape out = [b, 1, H, n] \<and>
           (\<forall>bi j k. bi < b \<longrightarrow> j < H \<longrightarrow> k < n \<longrightarrow>
              dat out [bi, 0, j, k] =
                (\<Sum>i < H. bilinear (dat img) bi 0 H W
                   (cos (real k * pi / real n) * base_coord H j
                      + sin (real k * pi / real n) * base_coord H i)
                   (- sin (real k * pi / real n) * base_coord H j
                      + cos (real k * pi / real n) * base_coord H i)))"
proof -
  from radon_init_ok [OF assms(1,2)] obtain r where
    r: "radon_init n H = Inr r" "n_angles r = n" "shape (rotated r) = [1, n * H, H, 2]"
       "\<And>k i j. k < n \<Longrightarrow> i < H \<Longrightarrow> j < H \<Longrightarrow>
              dat (rotated r) [0, k * H + i, j, 0]
                = cos (real k * pi / real n) * base_coord H j
                  + sin (real k * pi / real n) * base_coord H i \<and>
              dat (rotated r) [0, k * H + i, j, 1]
                = - sin (real k * pi / real n) * base_coord H j
                  + cos (real k * pi / real n) * base_coord H i"
    by blast
  from radon_forward_ok [OF r(2,3) assms(4,2,3)] obtain out where
    out: "radon_forward r img = Inr out" "shape out = [b, 1, H, n]"
        "\<And>bi j k. bi < b \<Longrightarrow> j < H \<Longrightarrow> k < n \<Longrightarrow>
              dat out [bi, 0, j, k] =
                (\<Sum>i < H. bilinear (dat img) bi 0 H W
                            (dat (rotated r) [0, k * H + i, j, 0])
                            (dat (rotated r) [0, k * H + i, j, 1]))"
    by blast
  have "dat out [bi, 0, j, k] =
                (\<Sum>i < H. bilinear (dat img) bi 0 H W
                   (cos (real k * pi / real n) * base_coord H j
                      + sin (real k * pi / real n) * base_coord H i)
                   (- sin (real k * pi / real n) * base_coord H j
                      + cos (real k * pi / real n) * base_coord H i))"
    if "bi < b" "j < H" "k < n" for bi j k
    unfolding out(3) [OF that]
  proof (intro sum.cong refl)
    fix i assume "i \<in> {..<H}"
    then have "i < H" by simp
    from r(4) [OF that(3) this that(2)]
    show "bilinear (dat img) bi 0 H W (dat (rotated r) [0, k * H + i, j, 0])
            (dat (rotated r) [0, k * H + i, j, 1])
        = bilinear (dat img) bi 0 H W
                   (cos (real k * pi / real n) * base_coord H j
                      + sin (real k * pi / real n) * base_coord H i)
                   (- sin (real k * pi / real n) * base_coord H j
                      + cos (real k * pi / real n) * base_coord H i)"
      by simp
  qed
  with r(1) out(1,2) show ?thesis by blast
qed

lemma fbp_forward_mismatch:
  assumes init: "fbp_init n H circ True f32 = Inr op" and inp: "shape inp = [b, c, d, a]" "d \<noteq> H"
  shows "fbp_forward op inp = Inl RuntimeError"
proof -
  note op = fbp_init_facts [OF init]
  have pw: "1 < projection_size_padded H" "1 < projection_size_padded H - H"
      "H + (projection_size_padded H - H) = projection_size_padded H"
    using padded_pad_width [of H] by simp_all
  have t: "filtered op" by (simp add: op(5))
  have "d + (projection_size_padded H - H) \<noteq> projection_size_padded H"
    using pw(3) inp(2) by simp
  with filter_sinogram_filtered [OF t op(6,7) pw(1,2) inp(1)]
  have "filter_sinogram op inp d = Inl RuntimeError" by simp
  then show ?thesis by (simp add: fbp_forward_def inp(1))
qed

subsection \<open>Sampling at grid points and the first projection angle\<close>

lemma floor_real_nat [simp]: "\<lfloor>real k\<rfloor> = int k"
  by linarith

lemma bilinear_at_pixel:
  assumes "unnormalize x W = real j" "unnormalize y H = real i" "i < H" "j < W"
  shows "bilinear f n c H W x y = f [n, c, i, j]"
  using assms by (simp add: bilinear_def pixel_def within_bounds_2d_def)

lemma bilinear_zero_column:
  assumes "unnormalize x W = real k" "\<And>r. r < H \<Longrightarrow> f [n, c, r, k] = 0"
  shows "bilinear f n c H W x y = 0"
proof -
  have "pixel f n c H W iy (int k) = 0" for iy
  proof (cases "within_bounds_2d iy (int k) H W")
    case True
    then have "nat iy < H" by (auto simp: within_bounds_2d_def)
    with True assms(2) show ?thesis by (simp add: pixel_def)
  next
    case False
    then show ?thesis by (simp add: pixel_def)
  qed
  then show ?thesis using assms(1) by (simp add: bilinear_def)
qed

lemma unnormalize_linspace:
  assumes "i < n"
  shows "unnormalize (linspace (- 1) 1 n ! i) n = real i"
proof (cases "n = 1")
  case True
  with assms show ?thesis by (simp add: nth_linspace unnormalize_def)
next
  case False
  with assms have "1 < n" by simp
  then have "real n - 1 \<noteq> 0" by simp
  with assms \<open>1 < n\<close> show ?thesis
    by (simp add: nth_linspace unnormalize_def of_nat_diff field_simps)
qed





lemma sum_only_first:
  fixes f :: "nat \<Rightarrow> real"
  assumes "0 < n" "\<And>k. k < n \<Longrightarrow> 0 < k \<Longrightarrow> f k = 0"
  shows "(\<Sum>k < n. f k) = f 0"
proof -
  have "(\<Sum>k < n. f k) = (\<Sum>k < n. if k = 0 then f 0 else 0)"
    using assms(2) by (intro sum.cong refl) auto
  also have "\<dots> = f 0" using assms(1) by simp
  finally show ?thesis .
qed



lemma accumulate_first_angle:
  assumes init: "fbp_init n H circ filt f32 = Inr op" and y: "shape y = [b, 1, H, n]"
    and supp: "\<And>bi j k. bi < b \<Longrightarrow> j < H \<Longrightarrow> k < n \<Longrightarrow> 0 < k \<Longrightarrow> dat y [bi, 0, j, k] = 0"
  shows "\<exists>acc. accumulate op y b = Inr acc \<and>
           (\<forall>bi i j. bi < b \<longrightarrow> i < H \<longrightarrow> j < H \<longrightarrow> dat acc [bi, 0, i, j] = dat y [bi, 0, j, 0])"
proof -
  from fbp_init_pos [OF init] have pos: "0 < n" "0 < H" by simp_all
  note op = fbp_init_facts [OF init]
  from fbp_init_ok [OF pos, of circ filt f32] init have
    g: "\<And>k i j. k < n \<Longrightarrow> i < H \<Longrightarrow> j < H \<Longrightarrow>
              dat (grid op) [0, k * H + i, j, 0] = linspace (- 1) 1 n ! k \<and>
              dat (grid op) [0, k * H + i, j, 1]
                = linspace (- 1) 1 H ! j * cos (real k * pi / real n)
                  - linspace (- 1) 1 H ! i * sin (real k * pi / real n)"
    by auto
  from accumulate_ok [OF op(3,1,8) y pos(2,1)] obtain acc where
    acc: "accumulate op y b = Inr acc"
      "\<And>bi i j. bi < b \<Longrightarrow> i < H \<Longrightarrow> j < H \<Longrightarrow>
              dat acc [bi, 0, i, j] =
                (\<Sum>k < n. bilinear (dat y) bi 0 H n
                            (dat (grid op) [0, k * H + i, j, 0])
                            (dat (grid op) [0, k * H + i, j, 1]))"
    by blast
  have "dat acc [bi, 0, i, j] = dat y [bi, 0, j, 0]" if "bi < b" "i < H" "j < H" for bi i j
  proof -
    have "(\<Sum>k < n. bilinear (dat y) bi 0 H n
                          (dat (grid op) [0, k * H + i, j, 0])
                          (dat (grid op) [0, k * H + i, j, 1]))
          = bilinear (dat y) bi 0 H n
                          (dat (grid op) [0, 0 * H + i, j, 0])
                          (dat (grid op) [0, 0 * H + i, j, 1])"
    proof (rule sum_only_first [OF pos(1)])
      fix k assume k: "k < n" "0 < k"
      from g [OF k(1) that(2,3)]
      have "unnormalize (dat (grid op) [0, k * H + i, j, 0]) n = real k"
        using k(1) by (simp add: unnormalize_linspace)
      then show "bilinear (dat y) bi 0 H n
                          (dat (grid op) [0, k * H + i, j, 0])
                          (dat (grid op) [0, k * H + i, j, 1]) = 0"
        using supp [OF that(1) _ k] by (intro bilinear_zero_column) simp_all
    qed
    also have "\<dots> = dat y [bi, 0, j, 0]"
    proof -
      from g [OF pos(1) that(2,3)]
      have "dat (grid op) [0, 0 * H + i, j, 0] = linspace (- 1) 1 n ! 0"
           "dat (grid op) [0, 0 * H + i, j, 1] = linspace (- 1) 1 H ! j"
        by simp_all
      then show ?thesis
        using pos(1) that(3) by (simp add: bilinear_at_pixel unnormalize_linspace)
    qed
    finally show ?thesis using acc(2) [OF that] by simp
  qed
  with acc(1) show ?thesis by blast
qed






section \<open>The claims\<close>




text \<open>
  Claim C2. For \<open>n_angles \<ge> 1\<close> and \<open>image_size = H \<ge> 1\<close> both operators can be built; the
  forward operator maps a \<open>batch \<times> 1 \<times> H \<times> H\<close> image to a \<open>batch \<times> 1 \<times> H \<times> n_angles\<close>
  sinogram, and the backward operator (filtered or not, with or without the circle) maps a
  \<open>batch \<times> 1 \<times> H \<times> n_angles\<close> sinogram to a \<open>batch \<times> 1 \<times> H \<times> H\<close> image.
\<close>

theorem operator_shapes:
  assumes "0 < n" "0 < H" "shape x = [b, 1, H, H]" "shape y = [b, 1, H, n]"
  shows "\<exists>r op ax by. radon_init n H = Inr r \<and> radon_forward r x = Inr ax \<and>
           shape ax = [b, 1, H, n] \<and>
           fbp_init n H circ filt f32 = Inr op \<and> fbp_forward op y = Inr by \<and>
           shape by = [b, 1, H, H]"
proof -
  from radon_runs [OF assms(1,2,2,3)] obtain r ax where
    "radon_init n H = Inr r" "radon_forward r x = Inr ax" "shape ax = [b, 1, H, n]"
    by blast
  moreover have "\<exists>op out. fbp_init n H circ filt f32 = Inr op \<and> fbp_forward op y = Inr out \<and>
           shape out = [b, 1, H, H]"
    using assms by (intro fbp_runs [where D = H and A = n]) simp_all
  ultimately show ?thesis by blast
qed

theorem operator_shapes_witness:
  "0 < (3::nat) \<and> 0 < (2::nat) \<and>
   (\<forall>f32. \<exists>r op ax by. radon_init 3 2 = Inr r \<and>
       radon_forward r \<lparr>shape = [5, 1, 2, 2], dat = (\<lambda>idx. 1)\<rparr> = Inr ax \<and>
       shape ax = [5, 1, 2, 3] \<and>
       fbp_init 3 2 True True f32 = Inr op \<and>
       fbp_forward op \<lparr>shape = [5, 1, 2, 3], dat = (\<lambda>idx. 1)\<rparr> = Inr by \<and>
       shape by = [5, 1, 2, 2])"
  using operator_shapes [where n = 3 and H = 2 and b = 5 and circ = True and filt = True
      and x = "\<lparr>shape = [5, 1, 2, 2], dat = (\<lambda>idx. 1)\<rparr>"
      and y = "\<lparr>shape = [5, 1, 2, 3], dat = (\<lambda>idx. 1)\<rparr>"]
  by simp

text \<open>
  Claim C3. For \<open>n_angles \<ge> 1\<close> the angle list that both constructors compute (line 37 and
  line 84, \<open>thetas\<close>) has exactly \<open>n_angles\<close> entries, entry \<open>k\<close> is \<open>k \<pi> / n_angles\<close>, consecutive
  entries are \<open>\<pi> / n_angles\<close> apart, and every entry lies in the half-open interval from 0
  to \<open>\<pi>\<close>.
\<close>

theorem thetas_uniform:
  assumes "0 < n"
  shows "\<exists>ths. thetas n = Inr ths \<and> length ths = n \<and>
           (\<forall>k<n. ths ! k = real k * pi / real n \<and> 0 \<le> ths ! k \<and> ths ! k < pi) \<and>
           (\<forall>k. Suc k < n \<longrightarrow> ths ! Suc k - ths ! k = pi / real n)"
proof -
  have lt: "real k * pi / real n < pi" if "k < n" for k
  proof -
    have "real k * pi < real n * pi" using that by simp
    then show ?thesis using assms by (simp add: field_simps)
  qed
  have "linspace 0 (pi - pi / real n) n ! Suc k - linspace 0 (pi - pi / real n) n ! k = pi / real n"
    if "Suc k < n" for k
  proof -
    from that have "k < n" by simp
    from thetas_nth [OF assms that] thetas_nth [OF assms this]
    have "linspace 0 (pi - pi / real n) n ! Suc k - linspace 0 (pi - pi / real n) n ! k
            = real (Suc k) * pi / real n - real k * pi / real n"
      by simp
    also have "\<dots> = pi / real n"
      by (simp add: algebra_simps add_divide_distrib)
    finally show ?thesis .
  qed
  with lt show ?thesis using assms by (simp add: thetas_def thetas_nth)
qed

theorem thetas_uniform_witness:
  "0 < (4::nat) \<and>
   (\<exists>ths. thetas 4 = Inr ths \<and> length ths = 4 \<and>
           (\<forall>k<4. ths ! k = real k * pi / real 4 \<and> 0 \<le> ths ! k \<and> ths ! k < pi) \<and>
           (\<forall>k. Suc k < 4 \<longrightarrow> ths ! Suc k - ths ! k = pi / real 4))"
  using thetas_uniform [of 4] by simp

text \<open>
  Claim C4, amended. For an even size that is 2 or a multiple of 4 (every padded size the
  backward operator passes is a multiple of 4), and for no other even size, the real-space
  response \<open>f\<close> of \<open>rampfilter\<close> is the one the specification describes (0.25 at index 0,
  \<open>-1 / (\<pi> n)\<^sup>2\<close> at the odd indices with \<open>n\<close> the ascending then descending odd integers, 0 at
  the other indices); for these sizes \<open>rampfilter\<close> returns a tensor of length \<open>size\<close> that
  holds twice the real part of the discrete Fourier transform of \<open>f\<close>.
\<close>

theorem rampfilter_spec:
  assumes "even sz" "0 < sz"
  shows "(ramp_response sz = Inr (spec_ramp_response sz) \<longleftrightarrow> 4 dvd sz \<or> sz = 2) \<and>
         (4 dvd sz \<or> sz = 2 \<longrightarrow>
            (\<exists>t. rampfilter sz = Inr t \<and> shape t = [sz] \<and>
              (\<forall>k<sz. dat t [k]
                 = 2 * Re (dft (map complex_of_real (spec_ramp_response sz)) ! k))))"
proof -
  have l: "length (dft (map complex_of_real (spec_ramp_response sz))) = sz"
    by (simp add: dft_def spec_ramp_response_def)
  have "\<exists>t. rampfilter sz = Inr t \<and> shape t = [sz] \<and>
              (\<forall>k<sz. dat t [k]
                 = 2 * Re (dft (map complex_of_real (spec_ramp_response sz)) ! k))"
    if "ramp_response sz = Inr (spec_ramp_response sz)"
    using that l by (simp add: rampfilter_def tensor_of_list_def)
  with ramp_response_spec_iff [OF assms] show ?thesis by blast
qed

theorem rampfilter_spec_witness:
  "even (64::nat) \<and> 0 < (64::nat) \<and> ramp_response 64 = Inr (spec_ramp_response 64) \<and>
   (\<exists>t. rampfilter 64 = Inr t \<and> shape t = [64] \<and>
        (\<forall>k<64. dat t [k] = 2 * Re (dft (map complex_of_real (spec_ramp_response 64)) ! k)))"
  using rampfilter_spec [of 64] by simp

text \<open>
  Claim C4 as stated covers every even size. At size 6 the second half of the index array is
  \<open>arange(2, 0, -2) = [2]\<close>, an even integer, so \<open>f[5] = -1 / (2\<pi>)\<^sup>2\<close> where the description
  gives \<open>-1 / \<pi>\<^sup>2\<close>.
\<close>

theorem rampfilter_size_6_counterexample:
  "ramp_response 6 \<noteq> Inr (spec_ramp_response 6)"
proof
  assume eq: "ramp_response 6 = Inr (spec_ramp_response 6)"
  have c: "ramp_index 6 = [1, 3, 2]"
    using ramp_index_even [of 3] by (simp add: upt_rec)
  have s: "spec_ramp_index 6 = [1, 3, 1]"
    by (simp add: spec_ramp_index_def upto.simps)
  have "ramp_response (2 * 3) =
     Inr (map (\<lambda>i. if i = 0 then 0.25
              else if odd i then - 1 / (pi * real_of_int (ramp_index (2 * 3) ! (i div 2))) ^ 2
              else 0) [0..<2 * 3])"
    by (intro ramp_response_even) simp
  with eq have "map (\<lambda>i. if i = 0 then 0.25
              else if odd i then - 1 / (pi * real_of_int (ramp_index (2 * 3) ! (i div 2))) ^ 2
              else 0) [0..<6] = spec_ramp_response 6"
    by simp
  then have "map (\<lambda>i. if i = 0 then 0.25
              else if odd i then - 1 / (pi * real_of_int (ramp_index (2 * 3) ! (i div 2))) ^ 2
              else 0) [0..<6] ! 5 = spec_ramp_response 6 ! 5"
    by simp
  then have "- 1 / (pi * 2) ^ 2 = - 1 / (pi * 1) ^ 2"
    by (simp add: c s spec_ramp_response_def)
  then show False
    by (simp add: power2_eq_square field_simps)
qed

text \<open>
  Claim C5. The backward operator's constructor fixes the padded detector length as the
  smallest power of two that is at least twice the detector count (= \<open>image_size\<close>) and at
  least 64; the ramp filter has that length, and \<open>pad_width\<close> is that length minus the
  detector count.
\<close>

theorem fbp_padding:
  assumes "0 < n" "0 < H"
  shows "\<exists>op k. fbp_init n H circ filt f32 = Inr op \<and>
           projection_size_padded H = 2 ^ k \<and>
           2 * H \<le> (2::nat) ^ k \<and> 64 \<le> (2::nat) ^ k \<and>
           (\<forall>m. 2 * H \<le> 2 ^ m \<and> 64 \<le> (2::nat) ^ m \<longrightarrow> (2::nat) ^ k \<le> 2 ^ m) \<and>
           shape (fbp_filter op) = [2 ^ k] \<and>
           pad_width op = 2 ^ k - H \<and> pad_width op + H = 2 ^ k"
proof -
  from fbp_init_ok [OF assms, of circ filt f32] obtain op where
    init: "fbp_init n H circ filt f32 = Inr op" by blast
  note op = fbp_init_facts [OF init]
  from padded_pow2 [of H] obtain k where k: "projection_size_padded H = 2 ^ k" by blast
  have "2 * H \<le> (2::nat) ^ k" "64 \<le> (2::nat) ^ k"
    using padded_ge [of H] padded_ge_64 [of H] by (simp_all add: k)
  moreover have "(2::nat) ^ k \<le> 2 ^ m" if "2 * H \<le> 2 ^ m \<and> 64 \<le> (2::nat) ^ m" for m
    using padded_least [of H m] that by (simp add: k)
  moreover have "pad_width op + H = 2 ^ k"
    using padded_ge [of H] by (simp add: op(6) k)
  ultimately show ?thesis using init op(6,7) k by auto
qed

theorem fbp_padding_witness:
  "0 < (50::nat) \<and> 0 < (100::nat) \<and>
   (\<forall>f32. \<exists>op k. fbp_init 50 100 False True f32 = Inr op \<and>
           projection_size_padded 100 = 2 ^ k \<and>
           2 * 100 \<le> (2::nat) ^ k \<and> 64 \<le> (2::nat) ^ k \<and>
           (\<forall>m. 2 * 100 \<le> (2::nat) ^ m \<and> 64 \<le> (2::nat) ^ m \<longrightarrow> (2::nat) ^ k \<le> 2 ^ m) \<and>
           shape (fbp_filter op) = [2 ^ k] \<and>
           pad_width op = 2 ^ k - 100 \<and> pad_width op + 100 = 2 ^ k) \<and>
   projection_size_padded 100 = 256"
proof -
  have "projection_size_padded 100 = 256" by code_simp
  then show ?thesis using fbp_padding [of 50 100 False True] by simp
qed

text \<open>
  Claim C6, amended. Neither operator validates its input; a call fails only where a tensor
  operation cannot be carried out. For a non-empty batch: the forward operator fails on a
  four-dimensional input of \<open>c\<close> channels, height \<open>s\<close> and width \<open>w\<close> exactly when \<open>s\<close> or \<open>w\<close> is 0
  or \<open>s\<^sup>2 \<noteq> c \<cdot> image_size\<^sup>2\<close> (the reshape of line 54), so a single-channel input is rejected
  when its height differs from \<open>image_size\<close>, whatever its width. The filtered backward
  operator fails on a single-channel sinogram whose detector-axis length differs from
  \<open>image_size\<close> (the product with the filter of line 109) and accepts any angle count
  \<open>\<ge> 1\<close>; the unfiltered one accepts any detector-axis length \<open>\<ge> 1\<close> and any angle count
  \<open>\<ge> 1\<close>.
\<close>

theorem shape_checks:
  assumes "0 < n" "0 < H" "0 < b"
  shows "(\<exists>r. radon_init n H = Inr r \<and>
            (\<forall>img c s w. shape img = [b, c, s, w] \<longrightarrow>
               (if 0 < s \<and> 0 < w \<and> s * s = c * (H * H)
                then \<exists>out. radon_forward r img = Inr out \<and> shape out = [b, 1, s, n]
                else radon_forward r img = Inl RuntimeError))) \<and>
         (\<exists>op. fbp_init n H circ True f32 = Inr op \<and>
            (\<forall>inp d a. shape inp = [b, 1, d, a] \<longrightarrow> 0 < a \<longrightarrow>
               (if d = H
                then \<exists>out. fbp_forward op inp = Inr out \<and> shape out = [b, 1, H, H]
                else fbp_forward op inp = Inl RuntimeError))) \<and>
         (\<exists>op. fbp_init n H circ False f32 = Inr op \<and>
            (\<forall>inp d a. shape inp = [b, 1, d, a] \<longrightarrow> 0 < d \<longrightarrow> 0 < a \<longrightarrow>
               (\<exists>out. fbp_forward op inp = Inr out \<and> shape out = [b, 1, H, H])))"
proof (intro conjI)
  from radon_init_ok [OF assms(1,2)] obtain r where
    r: "radon_init n H = Inr r" "n_angles r = n" "shape (rotated r) = [1, n * H, H, 2]"
    by blast
  have "if 0 < s \<and> 0 < w \<and> s * s = c * (H * H)
        then \<exists>out. radon_forward r img = Inr out \<and> shape out = [b, 1, s, n]
        else radon_forward r img = Inl RuntimeError"
    if "shape img = [b, c, s, w]" for img c s w
    by (rule radon_forward_shape [OF r(2,3) that assms(3,1)])
  with r(1) show "\<exists>r. radon_init n H = Inr r \<and>
            (\<forall>img c s w. shape img = [b, c, s, w] \<longrightarrow>
               (if 0 < s \<and> 0 < w \<and> s * s = c * (H * H)
                then \<exists>out. radon_forward r img = Inr out \<and> shape out = [b, 1, s, n]
                else radon_forward r img = Inl RuntimeError))"
    by blast
next
  from fbp_init_ok [OF assms(1,2), of circ True f32] obtain op where
    init: "fbp_init n H circ True f32 = Inr op" by blast
  have "if d = H
        then \<exists>out. fbp_forward op inp = Inr out \<and> shape out = [b, 1, H, H]
        else fbp_forward op inp = Inl RuntimeError"
    if sh: "shape inp = [b, 1, d, a]" and a: "0 < a" for inp d a
  proof (cases "d = H")
    case True
    have "\<exists>op' out. fbp_init n H circ True f32 = Inr op' \<and> fbp_forward op' inp = Inr out \<and>
            shape out = [b, 1, H, H]"
      using assms(1,2) sh a True by (intro fbp_runs [where D = d and A = a]) simp_all
    with init True show ?thesis by auto
  next
    case False
    with fbp_forward_mismatch [OF init sh] show ?thesis by simp
  qed
  with init show "\<exists>op. fbp_init n H circ True f32 = Inr op \<and>
            (\<forall>inp d a. shape inp = [b, 1, d, a] \<longrightarrow> 0 < a \<longrightarrow>
               (if d = H
                then \<exists>out. fbp_forward op inp = Inr out \<and> shape out = [b, 1, H, H]
                else fbp_forward op inp = Inl RuntimeError))"
    by blast
next
  from fbp_init_ok [OF assms(1,2), of circ False f32] obtain op where
    init: "fbp_init n H circ False f32 = Inr op" by blast
  have "\<exists>out. fbp_forward op inp = Inr out \<and> shape out = [b, 1, H, H]"
    if sh: "shape inp = [b, 1, d, a]" and d: "0 < d" and a: "0 < a" for inp d a
  proof -
    have "\<exists>op' out. fbp_init n H circ False f32 = Inr op' \<and> fbp_forward op' inp = Inr out \<and>
            shape out = [b, 1, H, H]"
      using assms(1,2) sh d a by (intro fbp_runs [where D = d and A = a]) simp_all
    with init show ?thesis by auto
  qed
  with init show "\<exists>op. fbp_init n H circ False f32 = Inr op \<and>
            (\<forall>inp d a. shape inp = [b, 1, d, a] \<longrightarrow> 0 < d \<longrightarrow> 0 < a \<longrightarrow>
               (\<exists>out. fbp_forward op inp = Inr out \<and> shape out = [b, 1, H, H]))"
    by blast
qed

theorem shape_checks_witness:
  "0 < (2::nat) \<and> 0 < (3::nat) \<and> 0 < (1::nat) \<and>
   (\<exists>r. radon_init 2 3 = Inr r \<and>
            (\<forall>img c s w. shape img = [1, c, s, w] \<longrightarrow>
               (if 0 < s \<and> 0 < w \<and> s * s = c * (3 * 3)
                then \<exists>out. radon_forward r img = Inr out \<and> shape out = [1, 1, s, 2]
                else radon_forward r img = Inl RuntimeError))) \<and>
         (\<forall>f32. \<exists>op. fbp_init 2 3 False True f32 = Inr op \<and>
            (\<forall>inp d a. shape inp = [1, 1, d, a] \<longrightarrow> 0 < a \<longrightarrow>
               (if d = 3
                then \<exists>out. fbp_forward op inp = Inr out \<and> shape out = [1, 1, 3, 3]
                else fbp_forward op inp = Inl RuntimeError))) \<and>
         (\<forall>f32. \<exists>op. fbp_init 2 3 False False f32 = Inr op \<and>
            (\<forall>inp d a. shape inp = [1, 1, d, a] \<longrightarrow> 0 < d \<longrightarrow> 0 < a \<longrightarrow>
               (\<exists>out. fbp_forward op inp = Inr out \<and> shape out = [1, 1, 3, 3])))"
  using shape_checks [of 2 3 1 False] by simp

text \<open>
  Claim C6 as stated fails on each of its three parts: with \<open>n_angles = 1\<close> and
  \<open>image_size = 1\<close> the forward operator accepts a \<open>1 \<times> 2\<close> image, the filtered backward
  operator accepts a sinogram of three angles, and the unfiltered backward operator accepts
  a sinogram with five detector rows.
\<close>

theorem ill_shaped_input_accepted_counterexample:
  "\<not> isl (ebind (radon_init 1 1)
            (\<lambda>radon_op. radon_forward radon_op \<lparr>shape = [1, 1, 1, 2], dat = (\<lambda>idx. 0)\<rparr>)) \<and>
   (\<forall>f32. \<not> isl (ebind (fbp_init 1 1 False True f32)
            (\<lambda>fbp_op. fbp_forward fbp_op \<lparr>shape = [1, 1, 1, 3], dat = (\<lambda>idx. 0)\<rparr>))) \<and>
   (\<forall>f32. \<not> isl (ebind (fbp_init 1 1 False False f32)
            (\<lambda>fbp_op. fbp_forward fbp_op \<lparr>shape = [1, 1, 5, 1], dat = (\<lambda>idx. 0)\<rparr>)))"
proof (intro conjI allI)
  have "\<exists>r out. radon_init 1 1 = Inr r \<and>
          radon_forward r \<lparr>shape = [1, 1, 1, 2], dat = (\<lambda>idx. 0)\<rparr> = Inr out \<and>
          shape out = [1, 1, 1, 1]"
    using radon_runs [where n = 1 and H = 1 and W = 2 and b = 1
        and img = "\<lparr>shape = [1, 1, 1, 2], dat = (\<lambda>idx. 0)\<rparr>"]
    by auto
  then show "\<not> isl (ebind (radon_init 1 1)
            (\<lambda>radon_op. radon_forward radon_op \<lparr>shape = [1, 1, 1, 2], dat = (\<lambda>idx. 0)\<rparr>))"
    by auto
next
  fix f32
  have "\<exists>op out. fbp_init 1 1 False True f32 = Inr op \<and>
          fbp_forward op \<lparr>shape = [1, 1, 1, 3], dat = (\<lambda>idx. 0)\<rparr> = Inr out \<and>
          shape out = [1, 1, 1, 1]"
    by (rule fbp_runs [where D = 1 and A = 3]) simp_all
  then show "\<not> isl (ebind (fbp_init 1 1 False True f32)
            (\<lambda>fbp_op. fbp_forward fbp_op \<lparr>shape = [1, 1, 1, 3], dat = (\<lambda>idx. 0)\<rparr>))"
    by auto
next
  fix f32
  have "\<exists>op out. fbp_init 1 1 False False f32 = Inr op \<and>
          fbp_forward op \<lparr>shape = [1, 1, 5, 1], dat = (\<lambda>idx. 0)\<rparr> = Inr out \<and>
          shape out = [1, 1, 1, 1]"
    by (rule fbp_runs [where D = 5 and A = 1]) simp_all
  then show "\<not> isl (ebind (fbp_init 1 1 False False f32)
            (\<lambda>fbp_op. fbp_forward fbp_op \<lparr>shape = [1, 1, 5, 1], dat = (\<lambda>idx. 0)\<rparr>))"
    by auto
qed

text \<open>
  Claim C7, amended. When the backward operator is built with \<open>circle = True\<close>, then for every
  input on which the call returns, filtered or not, every output pixel at which the
  operator's own mask is false is exactly 0. The mask is the float32 evaluation of
  \<open>x\<^sup>2 + y\<^sup>2 \<le> 1\<close> at the pixel in row \<open>i\<close> and column \<open>j\<close>, with
  \<open>x = linspace(-1, 1, image_size)[j]\<close> and \<open>y = linspace(-1, 1, image_size)[i]\<close>; it is false
  at every pixel whose exact \<open>x\<^sup>2 + y\<^sup>2\<close> is above 1.001.
\<close>

theorem circle_mask_zero:
  assumes "fbp_init n H True filt f32 = Inr op" "fbp_forward op inp = Inr out"
    "i < H" "j < H"
  shows "(1 + 1 / 1000 < (linspace (- 1) 1 H ! j) ^ 2 + (linspace (- 1) 1 H ! i) ^ 2
            \<longrightarrow> \<not> dat (reconstruction_circle op) [i, j]) \<and>
         (\<not> dat (reconstruction_circle op) [i, j] \<longrightarrow> dat out [bi, ch, i, j] = 0)"
proof -
  note op = fbp_init_facts [OF assms(1)]
  from fbp_forward_Inr [OF assms(2)] obtain b c d a where
    sh: "shape inp = [b, c, d, a]" by blast
  from fbp_forward_value [OF assms(2) sh op(9) assms(3,4), of bi ch] op(4)
  have "\<not> dat (reconstruction_circle op) [i, j] \<longrightarrow> dat out [bi, ch, i, j] = 0"
    by auto
  moreover have "1 + 1 / 1000 < (linspace (- 1) 1 H ! j) ^ 2 + (linspace (- 1) 1 H ! i) ^ 2
            \<longrightarrow> \<not> dat (reconstruction_circle op) [i, j]"
    by (simp add: op(10) f32_le_one_def)
  ultimately show ?thesis by blast
qed

theorem circle_mask_zero_witness:
  "\<forall>f32. \<exists>op out. fbp_init 2 3 True True f32 = Inr op \<and>
      fbp_forward op \<lparr>shape = [1, 1, 3, 2], dat = (\<lambda>idx. 1)\<rparr> = Inr out \<and>
      (0::nat) < 3 \<and>
      1 + 1 / 1000 < (linspace (- 1) 1 3 ! 0) ^ 2 + (linspace (- 1) 1 3 ! 0) ^ 2 \<and>
      \<not> dat (reconstruction_circle op) [0, 0] \<and>
      dat out [0, 0, 0, 0] = 0"
proof
  fix f32
  have "\<exists>op out. fbp_init 2 3 True True f32 = Inr op \<and>
          fbp_forward op \<lparr>shape = [1, 1, 3, 2], dat = (\<lambda>idx. 1)\<rparr> = Inr out \<and>
          shape out = [1, 1, 3, 3]"
    by (rule fbp_runs [where D = 3 and A = 2]) simp_all
  then obtain op out where
    r: "fbp_init 2 3 True True f32 = Inr op"
       "fbp_forward op \<lparr>shape = [1, 1, 3, 2], dat = (\<lambda>idx. 1)\<rparr> = Inr out"
    by blast
  have c: "1 + 1 / 1000 < (linspace (- 1) 1 3 ! 0) ^ 2 + (linspace (- 1) 1 3 ! 0) ^ 2"
    by (simp add: nth_linspace)
  have z: "(1 + 1 / 1000 < (linspace (- 1) 1 3 ! 0) ^ 2 + (linspace (- 1) 1 3 ! 0) ^ 2
            \<longrightarrow> \<not> dat (reconstruction_circle op) [0, 0]) \<and>
         (\<not> dat (reconstruction_circle op) [0, 0] \<longrightarrow> dat out [0, 0, 0, 0] = 0)"
    by (rule circle_mask_zero [OF r]) simp_all
  with c have "\<not> dat (reconstruction_circle op) [0, 0]" "dat out [0, 0, 0, 0] = 0"
    by blast+
  with r c show "\<exists>op out. fbp_init 2 3 True True f32 = Inr op \<and>
      fbp_forward op \<lparr>shape = [1, 1, 3, 2], dat = (\<lambda>idx. 1)\<rparr> = Inr out \<and>
      (0::nat) < 3 \<and>
      1 + 1 / 1000 < (linspace (- 1) 1 3 ! 0) ^ 2 + (linspace (- 1) 1 3 ! 0) ^ 2 \<and>
      \<not> dat (reconstruction_circle op) [0, 0] \<and>
      dat out [0, 0, 0, 0] = 0"
    by auto
qed

text \<open>
  Claim C7 as stated, on the exact coordinates, fails where float32 rounding decides the
  mask. With \<open>image_size = 5000\<close> the pixel in row 0 and column 2500 has \<open>y = -1\<close> and
  \<open>x = 1 / 4999\<close>, so \<open>x\<^sup>2 + y\<^sup>2 > 1\<close>; but \<open>x\<^sup>2\<close> is below \<open>2\<^sup>-\<^sup>2\<^sup>4\<close>, half the spacing of the
  float32 numbers at 1, so the float32 sum is 1 and the comparison of line 91 holds. With
  that outcome at this pixel (and any outcomes at the other ones), one angle and the
  sinogram that is 1 everywhere, the pixel is returned as \<open>\<pi> / 2\<close>.
\<close>

theorem kept_pixel_counterexample:
  "(\<forall>f32. ebind (fbp_init 1 5000 True False (\<lambda>i j. (i = 0 \<and> j = 2500) \<or> f32 i j))
      (\<lambda>fbp_op. ebind (fbp_forward fbp_op \<lparr>shape = [1, 1, 5000, 1], dat = (\<lambda>idx. 1)\<rparr>)
         (\<lambda>out. Inr (dat out [0, 0, 0, 2500]))) = Inr (pi / 2)) \<and>
   1 < (linspace (- 1) 1 5000 ! 2500) ^ 2 + (linspace (- 1) 1 5000 ! 0) ^ 2"
proof (intro conjI allI)
  fix f32 :: "nat \<Rightarrow> nat \<Rightarrow> bool"
  define g where "g = (\<lambda>i j. (i = 0 \<and> j = 2500) \<or> f32 i j)"
  define y :: "real tensor" where "y = \<lparr>shape = [1, 1, 5000, 1], dat = (\<lambda>idx. 1)\<rparr>"
  have sy: "shape y = [1, 1, 5000, 1]" by (simp add: y_def)
  have "\<exists>op out. fbp_init 1 5000 True False g = Inr op \<and> fbp_forward op y = Inr out \<and>
          shape out = [1, 1, 5000, 5000]"
    using sy by (intro fbp_runs [where D = 5000 and A = 1]) simp_all
  then obtain op out where
    r: "fbp_init 1 5000 True False g = Inr op" "fbp_forward op y = Inr out"
    by blast
  note op = fbp_init_facts [OF r(1)]
  have "\<exists>acc. accumulate op y 1 = Inr acc \<and>
           (\<forall>bi i j. bi < 1 \<longrightarrow> i < 5000 \<longrightarrow> j < 5000 \<longrightarrow>
              dat acc [bi, 0, i, j] = dat y [bi, 0, j, 0])"
    using sy by (intro accumulate_first_angle [OF r(1)]) simp_all
  then obtain acc where
    acc: "accumulate op y 1 = Inr acc" "dat acc [0, 0, 0, 2500] = dat y [0, 0, 2500, 0]"
    by auto
  have l: "linspace (- 1) 1 5000 ! 2500 = 1 / 4999" "linspace (- 1) 1 5000 ! 0 = - 1"
    by (simp_all add: nth_linspace)
  have m: "dat (reconstruction_circle op) [0, 2500]"
    by (simp add: op(10) l f32_le_one_def g_def power2_eq_square)
  from fbp_forward_value [OF r(2) sy op(9), of 0 2500 0 0] acc(1) m
  have "dat out [0, 0, 0, 2500] = dat acc [0, 0, 0, 2500] / step_size op * pi / (2 * real (fbp_n_angles op))"
    by (auto simp: filter_sinogram_unfiltered op(5))
  then have "dat out [0, 0, 0, 2500] = pi / 2"
    by (simp add: acc(2) op(2,3) y_def)
  then show "ebind (fbp_init 1 5000 True False (\<lambda>i j. (i = 0 \<and> j = 2500) \<or> f32 i j))
      (\<lambda>fbp_op. ebind (fbp_forward fbp_op \<lparr>shape = [1, 1, 5000, 1], dat = (\<lambda>idx. 1)\<rparr>)
         (\<lambda>out. Inr (dat out [0, 0, 0, 2500]))) = Inr (pi / 2)"
    using r unfolding g_def [symmetric] y_def [symmetric] by simp
next
  show "1 < (linspace (- 1) 1 5000 ! 2500) ^ 2 + (linspace (- 1) 1 5000 ! 0) ^ 2"
    by (simp add: nth_linspace power2_eq_square)
qed

text \<open>
  Claim C8, amended. The step size is \<open>image_size / det_count = 1\<close>. At every pixel that the
  operator's circle mask keeps (every pixel when \<open>circle = False\<close>; with \<open>circle = True\<close> the
  pixels where the float32 comparison \<open>x\<^sup>2 + y\<^sup>2 \<le> 1\<close> of line 91 holds, among them every pixel
  whose exact \<open>x\<^sup>2 + y\<^sup>2\<close> is at most 0.999), the image returned by the backward operator is the
  angle-summed accumulation of the (filtered) sinogram times \<open>\<pi> / (2 n_angles step_size)\<close>.
\<close>

theorem backward_normalisation:
  assumes "fbp_init n H circ filt f32 = Inr op" "fbp_forward op inp = Inr out"
    "shape inp = [b, c, d, a]" "i < H" "j < H"
    "\<not> circ \<or> dat (reconstruction_circle op) [i, j]"
  shows "step_size op = real H / real H \<and> step_size op = 1 \<and>
         ((linspace (- 1) 1 H ! j) ^ 2 + (linspace (- 1) 1 H ! i) ^ 2 \<le> 1 - 1 / 1000
            \<longrightarrow> dat (reconstruction_circle op) [i, j]) \<and>
         (\<exists>rf acc. filter_sinogram op inp d = Inr rf \<and> accumulate op rf b = Inr acc \<and>
            dat out [bi, ch, i, j]
              = dat acc [bi, ch, i, j] * (pi / (2 * real n * step_size op)))"
proof -
  note op = fbp_init_facts [OF assms(1)]
  from fbp_init_pos [OF assms(1)] have "0 < H" by simp
  then have s: "step_size op = real H / real H" by (simp add: op(2))
  have k: "(linspace (- 1) 1 H ! j) ^ 2 + (linspace (- 1) 1 H ! i) ^ 2 \<le> 1 - 1 / 1000
            \<longrightarrow> dat (reconstruction_circle op) [i, j]"
    by (simp add: op(10) f32_le_one_def)
  from fbp_forward_value [OF assms(2,3) op(9) assms(4,5), of bi ch] obtain rf acc where
    v: "filter_sinogram op inp d = Inr rf" "accumulate op rf b = Inr acc"
       "dat out [bi, ch, i, j]
             = (if circle op \<and> \<not> dat (reconstruction_circle op) [i, j] then 0
                else dat acc [bi, ch, i, j] / step_size op * pi / (2 * real (fbp_n_angles op)))"
    by blast
  from v(3) assms(6) op(2,3,4)
  have "dat out [bi, ch, i, j] = dat acc [bi, ch, i, j] * (pi / (2 * real n * step_size op))"
    by auto
  with v(1,2) s op(2) k show ?thesis by blast
qed

theorem backward_normalisation_witness:
  "\<forall>f32. \<exists>op out. fbp_init 2 3 True True f32 = Inr op \<and>
      fbp_forward op \<lparr>shape = [1, 1, 3, 2], dat = (\<lambda>idx. 1)\<rparr> = Inr out \<and>
      (1::nat) < 3 \<and> dat (reconstruction_circle op) [1, 1] \<and>
      step_size op = real 3 / real 3 \<and> step_size op = 1 \<and>
      (\<exists>rf acc. filter_sinogram op \<lparr>shape = [1, 1, 3, 2], dat = (\<lambda>idx. 1)\<rparr> 3 = Inr rf \<and>
          accumulate op rf 1 = Inr acc \<and>
          dat out [0, 0, 1, 1] = dat acc [0, 0, 1, 1] * (pi / (2 * real 2 * step_size op)))"
proof
  fix f32
  have "\<exists>op out. fbp_init 2 3 True True f32 = Inr op \<and>
          fbp_forward op \<lparr>shape = [1, 1, 3, 2], dat = (\<lambda>idx. 1)\<rparr> = Inr out \<and>
          shape out = [1, 1, 3, 3]"
    by (rule fbp_runs [where D = 3 and A = 2]) simp_all
  then obtain op out where
    r: "fbp_init 2 3 True True f32 = Inr op"
       "fbp_forward op \<lparr>shape = [1, 1, 3, 2], dat = (\<lambda>idx. 1)\<rparr> = Inr out"
    by blast
  have m: "dat (reconstruction_circle op) [1, 1]"
    by (simp add: fbp_init_facts(10) [OF r(1)] f32_le_one_def nth_linspace)
  have "step_size op = real 3 / real 3 \<and> step_size op = 1 \<and>
      ((linspace (- 1) 1 3 ! 1) ^ 2 + (linspace (- 1) 1 3 ! 1) ^ 2 \<le> 1 - 1 / 1000
            \<longrightarrow> dat (reconstruction_circle op) [1, 1]) \<and>
      (\<exists>rf acc. filter_sinogram op \<lparr>shape = [1, 1, 3, 2], dat = (\<lambda>idx. 1)\<rparr> 3 = Inr rf \<and>
          accumulate op rf 1 = Inr acc \<and>
          dat out [0, 0, 1, 1] = dat acc [0, 0, 1, 1] * (pi / (2 * real 2 * step_size op)))"
    using m by (intro backward_normalisation [OF r, where c = 1 and a = 2]) simp_all
  with r m show "\<exists>op out. fbp_init 2 3 True True f32 = Inr op \<and>
      fbp_forward op \<lparr>shape = [1, 1, 3, 2], dat = (\<lambda>idx. 1)\<rparr> = Inr out \<and>
      (1::nat) < 3 \<and> dat (reconstruction_circle op) [1, 1] \<and>
      step_size op = real 3 / real 3 \<and> step_size op = 1 \<and>
      (\<exists>rf acc. filter_sinogram op \<lparr>shape = [1, 1, 3, 2], dat = (\<lambda>idx. 1)\<rparr> 3 = Inr rf \<and>
          accumulate op rf 1 = Inr acc \<and>
          dat out [0, 0, 1, 1] = dat acc [0, 0, 1, 1] * (pi / (2 * real 2 * step_size op)))"
    by auto
qed

text \<open>
  Claim C8 as stated covers every pixel of the returned image. With \<open>circle = True\<close>,
  \<open>n_angles = 1\<close> and \<open>image_size = 1\<close> the only pixel has \<open>x = y = -1\<close> and lies outside the
  circle, whatever the rounding: on the sinogram with the single entry 1 the returned value
  is 0, while the accumulation times \<open>\<pi> / (2 n_angles step_size)\<close> is \<open>\<pi> / 2\<close>.
\<close>

theorem masked_pixel_counterexample:
  "(\<forall>f32. ebind (fbp_init 1 1 True False f32)
     (\<lambda>fbp_op. ebind (fbp_forward fbp_op \<lparr>shape = [1, 1, 1, 1], dat = (\<lambda>idx. 1)\<rparr>)
        (\<lambda>out. Inr (dat out [0, 0, 0, 0]))) = Inr 0) \<and>
   (\<forall>f32. ebind (fbp_init 1 1 True False f32)
     (\<lambda>fbp_op. ebind (accumulate fbp_op \<lparr>shape = [1, 1, 1, 1], dat = (\<lambda>idx. 1)\<rparr> 1)
        (\<lambda>acc. Inr (dat acc [0, 0, 0, 0]
                      * (pi / (2 * real (fbp_n_angles fbp_op) * step_size fbp_op)))))
       = Inr (pi / 2))"
proof -
  define y :: "real tensor" where "y = \<lparr>shape = [1, 1, 1, 1], dat = (\<lambda>idx. 1)\<rparr>"
  have sy: "shape y = [1, 1, 1, 1]" by (simp add: y_def)
  have "ebind (fbp_init 1 1 True False f32)
     (\<lambda>fbp_op. ebind (fbp_forward fbp_op y) (\<lambda>out. Inr (dat out [0, 0, 0, 0]))) = Inr 0 \<and>
   ebind (fbp_init 1 1 True False f32)
     (\<lambda>fbp_op. ebind (accumulate fbp_op y 1)
        (\<lambda>acc. Inr (dat acc [0, 0, 0, 0]
                      * (pi / (2 * real (fbp_n_angles fbp_op) * step_size fbp_op)))))
       = Inr (pi / 2)" for f32
  proof -
    have "\<exists>op out. fbp_init 1 1 True False f32 = Inr op \<and> fbp_forward op y = Inr out \<and>
            shape out = [1, 1, 1, 1]"
      using sy by (intro fbp_runs [where D = 1 and A = 1]) simp_all
    then obtain op out where
      r: "fbp_init 1 1 True False f32 = Inr op" "fbp_forward op y = Inr out"
      by blast
    note op = fbp_init_facts [OF r(1)]
    have "\<exists>acc. accumulate op y 1 = Inr acc \<and>
             (\<forall>bi i j. bi < 1 \<longrightarrow> i < 1 \<longrightarrow> j < 1 \<longrightarrow> dat acc [bi, 0, i, j] = dat y [bi, 0, j, 0])"
      using sy by (intro accumulate_first_angle [OF r(1)]) simp_all
    then obtain acc where
      acc: "accumulate op y 1 = Inr acc" "dat acc [0, 0, 0, 0] = dat y [0, 0, 0, 0]"
      by auto
    have m: "\<not> dat (reconstruction_circle op) [0, 0]"
      by (simp add: op(10) f32_le_one_def linspace_def)
    from fbp_forward_value [OF r(2) sy op(9), of 0 0 0 0] op(4) m
    have "dat out [0, 0, 0, 0] = 0"
      by auto
    moreover have "dat acc [0, 0, 0, 0] * (pi / (2 * real (fbp_n_angles op) * step_size op)) = pi / 2"
      by (simp add: acc(2) op(2,3) y_def)
    ultimately show ?thesis
      using r acc(1) by simp
  qed
  then show ?thesis unfolding y_def by blast
qed

text \<open>
  Claim C9. The sampling grid of the backward operator has shape
  \<open>[1, n_angles * image_size, image_size, 2]\<close>. For the angle \<open>k\<close> and the output pixel in row
  \<open>i\<close> and column \<open>j\<close>, whose normalised coordinates are \<open>x = linspace(-1, 1, image_size)[j]\<close>
  and \<open>y = linspace(-1, 1, image_size)[i]\<close>, the grid holds the pair of the angle coordinate
  \<open>linspace(-1, 1, n_angles)[k]\<close> and the detector coordinate \<open>x cos \<theta>\<^sub>k - y sin \<theta>\<^sub>k\<close>. The
  constructor takes no tensor, and the grid is the same for every choice of the \<open>circle\<close> and
  \<open>filtered\<close> options (and of the rounding outcomes \<open>f32\<close> of the mask).
\<close>

theorem backward_grid:
  assumes "0 < n" "0 < H"
  shows "\<exists>g. (\<forall>circ filt f32. \<exists>op. fbp_init n H circ filt f32 = Inr op \<and> grid op = g) \<and>
           shape g = [1, n * H, H, 2] \<and>
           (\<forall>k i j. k < n \<longrightarrow> i < H \<longrightarrow> j < H \<longrightarrow>
              dat g [0, k * H + i, j, 0] = linspace (- 1) 1 n ! k \<and>
              dat g [0, k * H + i, j, 1]
                = linspace (- 1) 1 H ! j * cos (real k * pi / real n)
                  - linspace (- 1) 1 H ! i * sin (real k * pi / real n))"
proof -
  from fbp_init_ok [OF assms, of False False "\<lambda>i j. True"] obtain op where
    op: "fbp_init n H False False (\<lambda>i j. True) = Inr op" "shape (grid op) = [1, n * H, H, 2]"
        "\<And>k i j. k < n \<Longrightarrow> i < H \<Longrightarrow> j < H \<Longrightarrow>
              dat (grid op) [0, k * H + i, j, 0] = linspace (- 1) 1 n ! k \<and>
              dat (grid op) [0, k * H + i, j, 1]
                = linspace (- 1) 1 H ! j * cos (real k * pi / real n)
                  - linspace (- 1) 1 H ! i * sin (real k * pi / real n)"
    by blast
  have "\<exists>op'. fbp_init n H circ filt f32 = Inr op' \<and> grid op' = grid op" for circ filt f32
    by (rule fbp_init_grid [OF op(1)])
  with op(2,3) show ?thesis by blast
qed

theorem backward_grid_witness:
  "0 < (2::nat) \<and> 0 < (3::nat) \<and>
   (\<exists>g. (\<forall>circ filt f32. \<exists>op. fbp_init 2 3 circ filt f32 = Inr op \<and> grid op = g) \<and>
           shape g = [1, 2 * 3, 3, 2] \<and>
           (\<forall>k i j. k < 2 \<longrightarrow> i < 3 \<longrightarrow> j < 3 \<longrightarrow>
              dat g [0, k * 3 + i, j, 0] = linspace (- 1) 1 2 ! k \<and>
              dat g [0, k * 3 + i, j, 1]
                = linspace (- 1) 1 3 ! j * cos (real k * pi / real 2)
                  - linspace (- 1) 1 3 ! i * sin (real k * pi / real 2)))"
  using backward_grid [of 2 3] by simp

text \<open>
  Claim C10. The forward operator never looks at the width of its input: for a
  single-channel input of shape \<open>batch \<times> 1 \<times> image_size \<times> W\<close> with any \<open>W \<ge> 1\<close> the call
  returns a tensor of shape \<open>batch \<times> 1 \<times> image_size \<times> n_angles\<close>, whose entry for detector
  \<open>j\<close> and angle \<open>k\<close> adds up the bilinear samples of the input along the rotated line, the
  horizontal grid coordinate being scaled to the input's own width \<open>W\<close>.
\<close>

theorem forward_accepts_any_width:
  assumes "0 < n" "0 < H" "0 < W" "shape img = [b, 1, H, W]"
  shows "\<exists>r out. radon_init n H = Inr r \<and> radon_forward r img = Inr out \<and>
           shape out = [b, 1, H, n] \<and>
           (\<forall>bi j k. bi < b \<longrightarrow> j < H \<longrightarrow> k < n \<longrightarrow>
              dat out [bi, 0, j, k] =
                (\<Sum>i < H. bilinear (dat img) bi 0 H W
                   (cos (real k * pi / real n) * base_coord H j
                      + sin (real k * pi / real n) * base_coord H i)
                   (- sin (real k * pi / real n) * base_coord H j
                      + cos (real k * pi / real n) * base_coord H i)))"
  by (rule radon_runs [OF assms])

theorem forward_accepts_any_width_witness:
  "0 < (2::nat) \<and> 0 < (3::nat) \<and> 0 < (7::nat) \<and>
   (\<exists>r out. radon_init 2 3 = Inr r \<and>
      radon_forward r \<lparr>shape = [1, 1, 3, 7], dat = (\<lambda>idx. 1)\<rparr> = Inr out \<and>
      shape out = [1, 1, 3, 2])"
proof -
  from forward_accepts_any_width [where n = 2 and H = 3 and W = 7 and b = 1
      and img = "\<lparr>shape = [1, 1, 3, 7], dat = (\<lambda>idx. 1)\<rparr>"]
  obtain r out where "radon_init 2 3 = Inr r"
      "radon_forward r \<lparr>shape = [1, 1, 3, 7], dat = (\<lambda>idx. 1)\<rparr> = Inr out"
      "shape out = [1, 1, 3, 2]"
    by auto
  then show ?thesis by auto
qed

end
